theory Spec2Isabelle
  imports Complex_Main "HOL-Library.AList" "HOL-Library.Log_Nat"
begin

section \<open>BlackRoad Meet: the room registry of \<^verbatim>\<open>meet_server.py\<close>\<close>

text \<open>
  The registry keeps two in-memory dictionaries (rooms and per-room participant sets) and
  mirrors mutations into an SQLite file. Everything the Python code takes from its
  environment is an explicit argument of the model: the identifier drawn by
  \<^verbatim>\<open>str(uuid.uuid4())[:8]\<close> and the reading of \<^verbatim>\<open>datetime.now()\<close>.
  Exceptions are values of type \<open>error\<close>; an operation returns the state it leaves behind
  together with either the exception raised or the value returned.
\<close>

subsection \<open>Data\<close>

text \<open>
  A \<^verbatim>\<open>datetime\<close> is a count of microseconds on the naive local time line (the resolution of
  Python's \<^verbatim>\<open>datetime\<close>). Nothing makes two successive readings of the wall clock increase.
  The ISO-8601 text of a timestamp orders as the timestamp does, so the text is not modelled
  separately.
\<close>

type_synonym datetime = int

datatype error = TypeError | KeyError | IntegrityError | OverflowError

record Room =
  r_id :: string
  r_name :: string
  r_host :: string
  r_participants :: "string list"
  r_max_size :: int
  r_status :: string
  r_created_at :: datetime
  r_ended_at :: "datetime option"
  r_recording_url :: string

record Participant =
  p_id :: string
  p_room_id :: string
  p_user :: string
  p_joined_at :: datetime
  p_left_at :: "datetime option"
  p_camera_on :: bool
  p_mic_on :: bool

text \<open>Rows of the two SQLite tables.\<close>

record room_row =
  rr_id :: string
  rr_name :: string
  rr_host :: string
  rr_max_size :: int
  rr_status :: string
  rr_created_at :: datetime
  rr_ended_at :: "datetime option"
  rr_recording_url :: string

record participant_row =
  pr_id :: string
  pr_room_id :: string
  pr_user :: string
  pr_joined_at :: datetime
  pr_left_at :: "datetime option"
  pr_camera_on :: int
  pr_mic_on :: int

record database =
  rooms_table :: "room_row list"
  participants_table :: "participant_row list"

text \<open>
  A Python \<^verbatim>\<open>dict\<close> keeps insertion order and assigning to an existing key keeps the key's
  position: an association list changed with \<open>AList.update\<close>. A \<^verbatim>\<open>set\<close> of participant objects
  is the list of its members in iteration order.
\<close>

record MeetServer =
  rooms :: "(string \<times> Room) list"
  participants :: "(string \<times> Participant list) list"
  db :: database

definition init_server :: MeetServer where
  "init_server = \<lparr>rooms = [], participants = [],
     db = \<lparr>rooms_table = [], participants_table = []\<rparr>\<rparr>"

subsection \<open>The durable store\<close>

text \<open>
  \<^verbatim>\<open>id\<close> is the primary key of both tables, so an \<^verbatim>\<open>INSERT\<close> of a key already present raises
  \<^verbatim>\<open>sqlite3.IntegrityError\<close>. The foreign key of \<^verbatim>\<open>participants.room_id\<close> is declared but
  SQLite does not enforce it unless asked to, and the code does not ask. Binding a Python
  integer that does not fit a signed 64-bit \<^verbatim>\<open>INTEGER\<close> raises \<^verbatim>\<open>OverflowError\<close> before the
  statement runs; \<open>max_size\<close> is the only integer the code binds that a caller chooses.
\<close>

definition insert_room :: "database \<Rightarrow> room_row \<Rightarrow> error + database" where
  "insert_room d row =
     (if rr_max_size row < - 9223372036854775808 \<or> 9223372036854775807 < rr_max_size row
      then Inl OverflowError
      else if rr_id row \<in> set (map rr_id (rooms_table d)) then Inl IntegrityError
      else Inr (d\<lparr>rooms_table := rooms_table d @ [row]\<rparr>))"

definition insert_participant :: "database \<Rightarrow> participant_row \<Rightarrow> error + database" where
  "insert_participant d row =
     (if pr_id row \<in> set (map pr_id (participants_table d)) then Inl IntegrityError
      else Inr (d\<lparr>participants_table := participants_table d @ [row]\<rparr>))"

definition update_left_at :: "database \<Rightarrow> datetime \<Rightarrow> string \<Rightarrow> string \<Rightarrow> database" where
  "update_left_at d left_at room_id user =
     d\<lparr>participants_table :=
         map (\<lambda>row. if pr_room_id row = room_id \<and> pr_user row = user \<and> pr_left_at row = None
                     then row\<lparr>pr_left_at := Some left_at\<rparr> else row)
             (participants_table d)\<rparr>"

definition update_room_ended :: "database \<Rightarrow> datetime \<Rightarrow> string \<Rightarrow> string \<Rightarrow> database" where
  "update_room_ended d ended_at recording_url room_id =
     d\<lparr>rooms_table :=
         map (\<lambda>row. if rr_id row = room_id
                     then row\<lparr>rr_status := ''ended'', rr_ended_at := Some ended_at,
                              rr_recording_url := recording_url\<rparr>
                     else row)
             (rooms_table d)\<rparr>"


subsection \<open>Sets of participant objects\<close>

text \<open>
  \<^verbatim>\<open>Participant\<close> is declared with a bare \<^verbatim>\<open>@dataclass\<close>: equality is generated, the class is
  not frozen, and so Python sets its \<^verbatim>\<open>__hash__\<close> to \<^verbatim>\<open>None\<close>. Hashing an instance raises
  \<^verbatim>\<open>TypeError\<close>, and \<^verbatim>\<open>set.add\<close> hashes its argument first.
\<close>

definition hash_Participant :: "Participant \<Rightarrow> error + int" where
  "hash_Participant p = Inl TypeError"

definition set_add :: "Participant list \<Rightarrow> Participant \<Rightarrow> error + Participant list" where
  "set_add ps p =
     (case hash_Participant p of
        Inl e \<Rightarrow> Inl e
      | Inr h \<Rightarrow> Inr (if p \<in> set ps then ps else ps @ [p]))"

subsection \<open>Operations\<close>

definition create_room ::
  "MeetServer \<Rightarrow> string \<Rightarrow> datetime \<Rightarrow> string \<Rightarrow> string \<Rightarrow> int
     \<Rightarrow> MeetServer \<times> (error + string \<times> string)" where
  "create_room s room_id created_at name host max_size =
     (let room = \<lparr>r_id = room_id, r_name = name, r_host = host, r_participants = [],
                  r_max_size = max_size, r_status = ''active'', r_created_at = created_at,
                  r_ended_at = None, r_recording_url = []\<rparr>;
          s1 = s\<lparr>rooms := AList.update room_id room (rooms s),
                 participants := AList.update room_id [] (participants s)\<rparr>
      in case insert_room (db s1)
                \<lparr>rr_id = room_id, rr_name = name, rr_host = host, rr_max_size = max_size,
                 rr_status = ''active'', rr_created_at = created_at, rr_ended_at = None,
                 rr_recording_url = []\<rparr> of
           Inl e \<Rightarrow> (s1, Inl e)
         | Inr d \<Rightarrow> (s1\<lparr>db := d\<rparr>, Inr (room_id, ''https://meet.blackroad.io/r/'' @ room_id)))"

text \<open>
  \<^verbatim>\<open>join_room\<close>: the user is appended to the room's list (line 146) before the participant
  object is added to the set (line 147), and the row is inserted after both.
\<close>

definition join_room ::
  "MeetServer \<Rightarrow> string \<Rightarrow> datetime \<Rightarrow> string \<Rightarrow> string \<Rightarrow> MeetServer \<times> (error + bool)" where
  "join_room s participant_id joined_at room_id user =
     (case map_of (rooms s) room_id of
        None \<Rightarrow> (s, Inr False)
      | Some room \<Rightarrow>
          if int (length (r_participants room)) \<ge> r_max_size room then (s, Inr False)
          else
            (let participant = \<lparr>p_id = participant_id, p_room_id = room_id, p_user = user,
                                p_joined_at = joined_at, p_left_at = None,
                                p_camera_on = True, p_mic_on = True\<rparr>;
                 s1 = s\<lparr>rooms := AList.update room_id
                           (room\<lparr>r_participants := r_participants room @ [user]\<rparr>) (rooms s)\<rparr>
             in (case map_of (participants s1) room_id of
                   None \<Rightarrow> (s1, Inl KeyError)
                 | Some ps \<Rightarrow>
                     (case set_add ps participant of
                        Inl e \<Rightarrow> (s1, Inl e)
                      | Inr ps' \<Rightarrow>
                          (let s2 = s1\<lparr>participants :=
                                       AList.update room_id ps' (participants s1)\<rparr>
                           in (case insert_participant (db s2)
                                      \<lparr>pr_id = participant_id, pr_room_id = room_id,
                                       pr_user = user, pr_joined_at = joined_at,
                                       pr_left_at = None, pr_camera_on = 1, pr_mic_on = 1\<rparr> of
                                 Inl e \<Rightarrow> (s2, Inl e)
                               | Inr d \<Rightarrow> (s2\<lparr>db := d\<rparr>, Inr True)))))))"

definition leave_room ::
  "MeetServer \<Rightarrow> datetime \<Rightarrow> string \<Rightarrow> string \<Rightarrow> MeetServer \<times> (error + bool)" where
  "leave_room s left_at room_id user =
     (case map_of (rooms s) room_id of
        None \<Rightarrow> (s, Inr False)
      | Some room \<Rightarrow>
          if user \<notin> set (r_participants room) then (s, Inr False)
          else (s\<lparr>rooms := AList.update room_id
                     (room\<lparr>r_participants := remove1 user (r_participants room)\<rparr>) (rooms s),
                  db := update_left_at (db s) left_at room_id user\<rparr>, Inr True))"

text \<open>The loop of \<^verbatim>\<open>toggle_media\<close>: the first member whose user matches is changed.\<close>

definition set_flags :: "bool option \<Rightarrow> bool option \<Rightarrow> Participant \<Rightarrow> Participant" where
  "set_flags camera mic p =
     (let p1 = (case camera of None \<Rightarrow> p | Some c \<Rightarrow> p\<lparr>p_camera_on := c\<rparr>)
      in case mic of None \<Rightarrow> p1 | Some m \<Rightarrow> p1\<lparr>p_mic_on := m\<rparr>)"

fun toggle_first ::
  "string \<Rightarrow> bool option \<Rightarrow> bool option \<Rightarrow> Participant list \<Rightarrow> Participant list option" where
  "toggle_first user camera mic [] = None"
| "toggle_first user camera mic (p # ps) =
     (if p_user p = user then Some (set_flags camera mic p # ps)
      else map_option ((#) p) (toggle_first user camera mic ps))"

definition toggle_media ::
  "MeetServer \<Rightarrow> string \<Rightarrow> string \<Rightarrow> bool option \<Rightarrow> bool option
     \<Rightarrow> MeetServer \<times> (error + bool)" where
  "toggle_media s room_id user camera mic =
     (case map_of (rooms s) room_id of
        None \<Rightarrow> (s, Inr False)
      | Some room \<Rightarrow>
          (case toggle_first user camera mic
                  (case map_of (participants s) room_id of None \<Rightarrow> [] | Some ps \<Rightarrow> ps) of
             None \<Rightarrow> (s, Inr False)
           | Some ps' \<Rightarrow>
               (s\<lparr>participants := AList.update room_id ps' (participants s)\<rparr>, Inr True)))"

definition end_room ::
  "MeetServer \<Rightarrow> datetime \<Rightarrow> string \<Rightarrow> string \<Rightarrow> MeetServer \<times> (error + bool)" where
  "end_room s ended_at room_id recording_url =
     (case map_of (rooms s) room_id of
        None \<Rightarrow> (s, Inr False)
      | Some room \<Rightarrow>
          (s\<lparr>rooms := AList.update room_id
                (room\<lparr>r_status := ''ended'', r_ended_at := Some ended_at,
                      r_recording_url := recording_url\<rparr>) (rooms s),
             db := update_room_ended (db s) ended_at recording_url room_id\<rparr>, Inr True))"

subsection \<open>Queries\<close>

text \<open>
  Line 230 computes \<^verbatim>\<open>int((ended_at - created_at).total_seconds() / 60)\<close> in binary64
  floating point: \<^verbatim>\<open>total_seconds()\<close> is the correctly rounded quotient of the interval's
  microseconds by \<open>10\<^sup>6\<close>, the division by 60 rounds again, and \<^verbatim>\<open>int\<close> truncates towards
  zero. A double is kept here as a pair \<open>(m, e)\<close> of integers standing for \<open>m \<sdot> 2\<^sup>e\<close>. Every
  value that two datetimes can produce is far inside the normal range of the format, so
  neither overflow nor subnormal numbers are modelled.
\<close>

type_synonym double = "int \<times> int"

text \<open>The quotient \<open>a / b\<close> rounded to the nearest integer, a tie going to the even one.\<close>

definition round_half_even :: "int \<Rightarrow> int \<Rightarrow> int" where
  "round_half_even a b =
     (let f = a div b; r = a mod b
      in if 2 * r < b then f else if b < 2 * r then f + 1 else if even f then f else f + 1)"

text \<open>
  The double nearest to \<open>p / q\<close> for positive \<open>p\<close> and \<open>q\<close>: the exponent is chosen so that
  the scaled quotient lies between \<open>2\<^sup>5\<^sup>2\<close> and \<open>2\<^sup>5\<^sup>3\<close>, which leaves a mantissa of 53 bits.
\<close>

definition round_quotient_pos :: "int \<Rightarrow> int \<Rightarrow> double" where
  "round_quotient_pos p q =
     (let k = bitlen p - bitlen q - 53;
          a = (if k < 0 then p * 2 ^ nat (- k) else p);
          b = (if k < 0 then q else q * 2 ^ nat k)
      in if a < 2 ^ 53 * b then (round_half_even a b, k)
         else (round_half_even a (2 * b), k + 1))"

text \<open>Rounding to nearest even is symmetric, and zero is exact.\<close>

definition round_quotient :: "int \<Rightarrow> int \<Rightarrow> double" where
  "round_quotient p q =
     (if p = 0 then (0, 0)
      else if p < 0 then (case round_quotient_pos (- p) q of (m, e) \<Rightarrow> (- m, e))
      else round_quotient_pos p q)"

text \<open>
  \<^verbatim>\<open>timedelta.total_seconds()\<close> divides two integers; \<^verbatim>\<open>x / 60\<close> divides a double by the
  integer 60, itself a double.
\<close>

definition total_seconds :: "int \<Rightarrow> double" where
  "total_seconds us = round_quotient us 1000000"

definition double_div_int :: "double \<Rightarrow> int \<Rightarrow> double" where
  "double_div_int x n =
     (case x of (m, e) \<Rightarrow>
        if e < 0 then round_quotient m (n * 2 ^ nat (- e)) else round_quotient (m * 2 ^ nat e) n)"

text \<open>\<^verbatim>\<open>int(x)\<close> drops the fraction of \<open>x\<close>.\<close>

definition int_of_double :: "double \<Rightarrow> int" where
  "int_of_double x =
     (case x of (m, e) \<Rightarrow>
        if e \<ge> 0 then m * 2 ^ nat e
        else if m \<ge> 0 then m div 2 ^ nat (- e) else - ((- m) div 2 ^ nat (- e)))"

text \<open>The whole of line 230 (and of line 267), from the interval's microseconds.\<close>

definition minutes_of :: "int \<Rightarrow> int" where
  "minutes_of us = int_of_double (double_div_int (total_seconds us) 60)"

definition duration_minutes :: "datetime \<Rightarrow> datetime \<Rightarrow> int" where
  "duration_minutes created_at ended_at = minutes_of (ended_at - created_at)"

record RoomInfo =
  ri_id :: string
  ri_name :: string
  ri_host :: string
  ri_participants :: "string list"
  ri_max_size :: int
  ri_status :: string
  ri_created_at :: datetime
  ri_ended_at :: "datetime option"
  ri_recording_url :: string
  ri_duration_minutes :: "int option"

definition room_info :: "Room \<Rightarrow> RoomInfo" where
  "room_info room =
     \<lparr>ri_id = r_id room, ri_name = r_name room, ri_host = r_host room,
      ri_participants = r_participants room, ri_max_size = r_max_size room,
      ri_status = r_status room, ri_created_at = r_created_at room,
      ri_ended_at = r_ended_at room, ri_recording_url = r_recording_url room,
      ri_duration_minutes =
        (case r_ended_at room of
           None \<Rightarrow> None
         | Some e \<Rightarrow> Some (duration_minutes (r_created_at room) e))\<rparr>"

definition get_room :: "MeetServer \<Rightarrow> string \<Rightarrow> RoomInfo option" where
  "get_room s room_id =
     (case map_of (rooms s) room_id of None \<Rightarrow> None | Some room \<Rightarrow> Some (room_info room))"

text \<open>
  \<^verbatim>\<open>sorted(history, key=..., reverse=True)\<close> is stable: equal keys keep their order. The slice
  \<^verbatim>\<open>[:n]\<close> with a negative \<open>n\<close> drops the last \<open>-n\<close> entries.
\<close>

definition sorted_reverse :: "('a \<Rightarrow> 'k::linorder) \<Rightarrow> 'a list \<Rightarrow> 'a list" where
  "sorted_reverse key xs = rev (sort_key key (rev xs))"

definition slice_to :: "int \<Rightarrow> 'a list \<Rightarrow> 'a list" where
  "slice_to n xs = (if n \<ge> 0 then take (nat n) xs else take (length xs - nat (- n)) xs)"

text \<open>
  \<^verbatim>\<open>get_user_history\<close> collects \<^verbatim>\<open>self.get_room(room.id)\<close>; subscripting a \<^verbatim>\<open>None\<close> among
  them in the sort key would raise \<^verbatim>\<open>TypeError\<close>.
\<close>

definition history_rooms :: "MeetServer \<Rightarrow> string \<Rightarrow> Room list" where
  "history_rooms s user =
     filter (\<lambda>room. user \<in> set (r_participants room) \<and> r_status room = ''ended'')
       (map snd (rooms s))"

definition get_user_history :: "MeetServer \<Rightarrow> string \<Rightarrow> int \<Rightarrow> error + RoomInfo list" where
  "get_user_history s user n =
     (case those (map (\<lambda>room. get_room s (r_id room)) (history_rooms s user)) of
        None \<Rightarrow> Inl TypeError
      | Some history \<Rightarrow> Inr (slice_to n (sorted_reverse ri_created_at history)))"



subsection \<open>Runs\<close>

text \<open>
  A call of one of the five mutating operations, with the values it draws from the
  environment. A run starts from a fresh registry on an empty store and goes on after a
  call that raised, from the state that call left behind.
\<close>

datatype call =
    CreateRoom string datetime string string int
  | JoinRoom string datetime string string
  | LeaveRoom datetime string string
  | ToggleMedia string string "bool option" "bool option"
  | EndRoom datetime string string

fun step :: "MeetServer \<Rightarrow> call \<Rightarrow> MeetServer" where
  "step s (CreateRoom room_id now name host max_size) =
     fst (create_room s room_id now name host max_size)"
| "step s (JoinRoom participant_id now room_id user) =
     fst (join_room s participant_id now room_id user)"
| "step s (LeaveRoom now room_id user) = fst (leave_room s now room_id user)"
| "step s (ToggleMedia room_id user camera mic) = fst (toggle_media s room_id user camera mic)"
| "step s (EndRoom now room_id recording_url) = fst (end_room s now room_id recording_url)"

fun run :: "MeetServer \<Rightarrow> call list \<Rightarrow> MeetServer" where
  "run s [] = s"
| "run s (c # cs) = run (step s c) cs"

subsection \<open>Invariant of the registry\<close>

text \<open>
  What every room of a registry satisfies: it sits under its own identifier, its list is no
  longer than its capacity allows (a capacity below zero admits nobody), it carries an end
  time exactly when it has ended, and its status is one of the two strings the code writes.
\<close>

definition room_ok :: "string \<Rightarrow> Room \<Rightarrow> bool" where
  "room_ok k room \<longleftrightarrow>
     r_id room = k \<and>
     int (length (r_participants room)) \<le> max 0 (r_max_size room) \<and>
     (r_ended_at room \<noteq> None \<longleftrightarrow> r_status room = ''ended'') \<and>
     (r_status room = ''active'' \<or> r_status room = ''ended'')"

text \<open>
  Besides, the keys of the room dictionary are distinct, every participant set is empty and
  the participant table has no row: \<^verbatim>\<open>join_room\<close> is the only writer of both, and it never
  gets past \<^verbatim>\<open>set.add\<close>.
\<close>

definition registry_ok :: "MeetServer \<Rightarrow> bool" where
  "registry_ok s \<longleftrightarrow>
     distinct (map fst (rooms s)) \<and>
     (\<forall>k room. map_of (rooms s) k = Some room \<longrightarrow> room_ok k room) \<and>
     (\<forall>k ps. map_of (participants s) k = Some ps \<longrightarrow> ps = []) \<and>
     participants_table (db s) = []"

subsection \<open>Example registries\<close>

text \<open>The example of the specification: \<^verbatim>\<open>create_room("Standup", "alice", 2)\<close>.\<close>

definition standup :: MeetServer where
  "standup = fst (create_room init_server ''a1b2c3d4'' 0 ''Standup'' ''alice'' 2)"

definition standup_bob :: MeetServer where
  "standup_bob = fst (join_room standup ''p0000001'' 1000000 ''a1b2c3d4'' ''bob'')"

definition standup_bob_carol :: MeetServer where
  "standup_bob_carol = fst (join_room standup_bob ''p0000002'' 2000000 ''a1b2c3d4'' ''carol'')"

definition standup_bob_bob :: MeetServer where
  "standup_bob_bob = fst (join_room standup_bob ''p0000002'' 2000000 ''a1b2c3d4'' ''bob'')"

definition standup_ended :: MeetServer where
  "standup_ended = fst (end_room standup 120000000 ''a1b2c3d4'' [])"

text \<open>
  A registry written out by hand, with session objects and session rows in it, to run the
  operations on. Two open sessions of bob, one closed one, and bob twice in the list.
\<close>

definition demo_server :: MeetServer where
  "demo_server =
     \<lparr>rooms = [(''r1'',
         \<lparr>r_id = ''r1'', r_name = ''Demo'', r_host = ''alice'',
          r_participants = [''carol'', ''bob'', ''dave'', ''bob''], r_max_size = 5,
          r_status = ''active'', r_created_at = 0, r_ended_at = None, r_recording_url = []\<rparr>)],
      participants = [(''r1'',
         [\<lparr>p_id = ''p1'', p_room_id = ''r1'', p_user = ''carol'', p_joined_at = 1,
           p_left_at = None, p_camera_on = True, p_mic_on = True\<rparr>,
          \<lparr>p_id = ''p2'', p_room_id = ''r1'', p_user = ''bob'', p_joined_at = 2,
           p_left_at = None, p_camera_on = True, p_mic_on = True\<rparr>,
          \<lparr>p_id = ''p4'', p_room_id = ''r1'', p_user = ''bob'', p_joined_at = 4,
           p_left_at = None, p_camera_on = True, p_mic_on = True\<rparr>])],
      db = \<lparr>rooms_table =
              [\<lparr>rr_id = ''r1'', rr_name = ''Demo'', rr_host = ''alice'', rr_max_size = 5,
                rr_status = ''active'', rr_created_at = 0, rr_ended_at = None,
                rr_recording_url = []\<rparr>],
            participants_table =
              [\<lparr>pr_id = ''p0'', pr_room_id = ''r1'', pr_user = ''bob'', pr_joined_at = 0,
                pr_left_at = Some 1, pr_camera_on = 1, pr_mic_on = 1\<rparr>,
               \<lparr>pr_id = ''p1'', pr_room_id = ''r1'', pr_user = ''carol'', pr_joined_at = 1,
                pr_left_at = None, pr_camera_on = 1, pr_mic_on = 1\<rparr>,
               \<lparr>pr_id = ''p2'', pr_room_id = ''r1'', pr_user = ''bob'', pr_joined_at = 2,
                pr_left_at = None, pr_camera_on = 1, pr_mic_on = 1\<rparr>]\<rparr>\<rparr>"

text \<open>The standup room ended after two and a half minutes.\<close>

definition standup_closed :: MeetServer where
  "standup_closed = fst (end_room standup 150000000 ''a1b2c3d4'' ''https://rec/1'')"

text \<open>A room whose end is stamped ninety seconds before its creation: the wall clock was set back.\<close>

definition rewound :: MeetServer where
  "rewound = fst (end_room
      (fst (create_room init_server ''a1b2c3d4'' 90000000 ''Standup'' ''alice'' 2))
      0 ''a1b2c3d4'' [])"

text \<open>\<^verbatim>\<open>create --max -1\<close> on the command line.\<close>

definition negative_capacity :: MeetServer where
  "negative_capacity = run init_server [CreateRoom ''a1b2c3d4'' 0 ''Standup'' ''alice'' (- 1)]"

text \<open>The specification's example as a run, and the room it leaves.\<close>

definition full_run :: "call list" where
  "full_run =
     [CreateRoom ''a1b2c3d4'' 0 ''Standup'' ''alice'' 2,
      JoinRoom ''p0000001'' 1000000 ''a1b2c3d4'' ''bob'',
      JoinRoom ''p0000002'' 2000000 ''a1b2c3d4'' ''carol'',
      JoinRoom ''p0000003'' 3000000 ''a1b2c3d4'' ''dave'']"

definition standup_full_room :: Room where
  "standup_full_room =
     \<lparr>r_id = ''a1b2c3d4'', r_name = ''Standup'', r_host = ''alice'',
      r_participants = [''bob'', ''carol''], r_max_size = 2, r_status = ''active'',
      r_created_at = 0, r_ended_at = None, r_recording_url = []\<rparr>"

text \<open>
  Two rooms that ended with bob in them, and a third, still active, with bob in it.
\<close>

definition history_run :: "call list" where
  "history_run =
     [CreateRoom ''r0000001'' 0 ''Monday'' ''alice'' 5,
      JoinRoom ''p0000001'' 1000000 ''r0000001'' ''bob'',
      EndRoom 100000000 ''r0000001'' [],
      CreateRoom ''r0000002'' 200000000 ''Tuesday'' ''alice'' 5,
      JoinRoom ''p0000002'' 201000000 ''r0000002'' ''bob'',
      EndRoom 300000000 ''r0000002'' [],
      CreateRoom ''r0000003'' 400000000 ''Wednesday'' ''alice'' 5,
      JoinRoom ''p0000003'' 401000000 ''r0000003'' ''bob'']"

definition history_server :: MeetServer where
  "history_server = run init_server history_run"

subsection \<open>Reading a double\<close>

definition val :: "double \<Rightarrow> real" where
  "val x = real_of_int (fst x) * 2 powi (snd x)"

subsection \<open>Joining again\<close>

text \<open>A call that appends the user to the room's list again, if it gets that far.\<close>

fun rejoins :: "string \<Rightarrow> string \<Rightarrow> call \<Rightarrow> bool" where
  "rejoins rid u (JoinRoom participant_id now room_id user) \<longleftrightarrow> room_id = rid \<and> user = u"
| "rejoins rid u _ \<longleftrightarrow> False"

text \<open>
  In the third room of the history example bob leaves, calls \<^verbatim>\<open>join_room\<close> again and the room
  is ended.
\<close>

definition rejoined_server :: MeetServer where
  "rejoined_server =
     run history_server
       [LeaveRoom 402000000 ''r0000003'' ''bob'',
        JoinRoom ''p0000004'' 403000000 ''r0000003'' ''bob'',
        EndRoom 500000000 ''r0000003'' []]"

text \<open>
  The same room when bob leaves and does not come back: a \<^verbatim>\<open>toggle_media\<close> call, then the end.
\<close>

definition left_server :: MeetServer where
  "left_server =
     run (fst (leave_room history_server 402000000 ''r0000003'' ''bob''))
       [ToggleMedia ''r0000003'' ''bob'' (Some False) None,
        EndRoom 500000000 ''r0000003'' []]"

section \<open>Properties\<close>

subsection \<open>The invariant holds along every run\<close>

lemma registry_ok_init: "registry_ok init_server"
  by (simp add: registry_ok_def init_server_def)

lemma registry_ok_create_room:
  "registry_ok s \<Longrightarrow> registry_ok (fst (create_room s rid t name host m))"
  by (auto simp: registry_ok_def room_ok_def create_room_def insert_room_def Let_def
      update_conv' distinct_update simp del: map_of_eq_Some_iff split: if_splits)

lemma registry_ok_join_room:
  "registry_ok s \<Longrightarrow> registry_ok (fst (join_room s pid t rid u))"
  by (auto simp: registry_ok_def room_ok_def join_room_def set_add_def hash_Participant_def
      Let_def update_conv' distinct_update simp del: map_of_eq_Some_iff
      split: option.splits if_splits)

lemma room_ok_remove1:
  "room_ok k room \<Longrightarrow> room_ok k (room\<lparr>r_participants := remove1 u (r_participants room)\<rparr>)"
  by (auto simp: room_ok_def length_remove1)

lemma registry_ok_leave_room:
  "registry_ok s \<Longrightarrow> registry_ok (fst (leave_room s t rid u))"
  by (auto simp: registry_ok_def leave_room_def update_left_at_def room_ok_remove1
      update_conv' distinct_update simp del: map_of_eq_Some_iff
      split: option.splits if_splits)

lemma registry_ok_toggle_media:
  assumes "registry_ok s"
  shows "registry_ok (fst (toggle_media s rid u c m))"
proof -
  have "toggle_first u c m (case map_of (participants s) rid of None \<Rightarrow> [] | Some ps \<Rightarrow> ps) = None"
  proof (cases "map_of (participants s) rid")
    case None
    then show ?thesis by simp
  next
    case (Some ps)
    with assms have "ps = []" by (simp add: registry_ok_def del: map_of_eq_Some_iff)
    with Some show ?thesis by simp
  qed
  then have "fst (toggle_media s rid u c m) = s"
    by (simp add: toggle_media_def split: option.splits)
  with assms show ?thesis by simp
qed

lemma registry_ok_end_room:
  "registry_ok s \<Longrightarrow> registry_ok (fst (end_room s t rid url))"
  by (auto simp: registry_ok_def room_ok_def end_room_def update_room_ended_def
      Let_def update_conv' distinct_update simp del: map_of_eq_Some_iff
      split: option.splits if_splits)

lemma registry_ok_step: "registry_ok s \<Longrightarrow> registry_ok (step s c)"
  by (cases c) (simp_all add: registry_ok_create_room registry_ok_join_room
      registry_ok_leave_room registry_ok_toggle_media registry_ok_end_room)

lemma registry_ok_run: "registry_ok s \<Longrightarrow> registry_ok (run s cs)"
  by (induction cs arbitrary: s) (simp_all add: registry_ok_step)

subsection \<open>The example registries, evaluated\<close>

lemmas ops_defs = create_room_def join_room_def leave_room_def toggle_media_def end_room_def
  insert_room_def insert_participant_def update_left_at_def update_room_ended_def
  set_add_def hash_Participant_def init_server_def

lemma standup_eq:
  "standup =
     \<lparr>rooms = [(''a1b2c3d4'',
         \<lparr>r_id = ''a1b2c3d4'', r_name = ''Standup'', r_host = ''alice'', r_participants = [],
          r_max_size = 2, r_status = ''active'', r_created_at = 0, r_ended_at = None,
          r_recording_url = []\<rparr>)],
      participants = [(''a1b2c3d4'', [])],
      db = \<lparr>rooms_table =
              [\<lparr>rr_id = ''a1b2c3d4'', rr_name = ''Standup'', rr_host = ''alice'',
                rr_max_size = 2, rr_status = ''active'', rr_created_at = 0, rr_ended_at = None,
                rr_recording_url = []\<rparr>],
            participants_table = []\<rparr>\<rparr>"
  by (simp add: standup_def ops_defs)

lemma standup_bob_eq:
  "standup_bob =
     standup\<lparr>rooms := [(''a1b2c3d4'',
         \<lparr>r_id = ''a1b2c3d4'', r_name = ''Standup'', r_host = ''alice'',
          r_participants = [''bob''], r_max_size = 2, r_status = ''active'', r_created_at = 0,
          r_ended_at = None, r_recording_url = []\<rparr>)]\<rparr>"
  by (simp add: standup_bob_def standup_eq ops_defs)

lemma join_room_never_True: "snd (join_room s pid t rid u) \<noteq> Inr True"
  by (simp add: join_room_def set_add_def hash_Participant_def Let_def split: option.splits)

subsection \<open>Joining\<close>

text \<open>
  C1. A room of capacity \<open>M\<close> should accept \<open>M\<close> distinct users, each call of \<^verbatim>\<open>join_room\<close>
  returning \<^verbatim>\<open>True\<close>, and refuse the next one with \<^verbatim>\<open>False\<close>. On the specification's own
  example (capacity 2; bob, carol, dave) the first two calls raise \<^verbatim>\<open>TypeError\<close> instead of
  returning \<^verbatim>\<open>True\<close>: the participant object cannot be put into a set. Each of them has
  already appended the user to the room's list, so the third call does return \<^verbatim>\<open>False\<close>.
\<close>

theorem join_room_standup_raises:
  "snd (join_room standup ''p0000001'' 1000000 ''a1b2c3d4'' ''bob'') = Inl TypeError \<and>
   snd (join_room standup_bob ''p0000002'' 2000000 ''a1b2c3d4'' ''carol'') = Inl TypeError \<and>
   snd (join_room standup_bob_carol ''p0000003'' 3000000 ''a1b2c3d4'' ''dave'') = Inr False"
  by (simp add: standup_bob_carol_def standup_bob_eq standup_eq ops_defs)

text \<open>
  C8. Two successive calls of \<^verbatim>\<open>join_room\<close> with the same user on a room with room for both
  should both return \<^verbatim>\<open>True\<close>, leave two entries for the user and create two session records.
  Here both calls raise \<^verbatim>\<open>TypeError\<close>; the list does get its two entries, but no participant
  object and no session row exists afterwards.
\<close>

theorem join_room_twice_raises:
  "snd (join_room standup ''p0000001'' 1000000 ''a1b2c3d4'' ''bob'') = Inl TypeError \<and>
   snd (join_room standup_bob ''p0000002'' 2000000 ''a1b2c3d4'' ''bob'') = Inl TypeError \<and>
   map_option r_participants (map_of (rooms standup_bob_bob) ''a1b2c3d4'')
     = Some [''bob'', ''bob''] \<and>
   participants_table (db standup_bob_bob) = [] \<and>
   map_of (participants standup_bob_bob) ''a1b2c3d4'' = Some []"
  by (simp add: standup_bob_bob_def standup_bob_eq standup_eq ops_defs)

text \<open>
  C9. \<^verbatim>\<open>join_room\<close> does not look at the status, so on an ended room below capacity it should
  return \<^verbatim>\<open>True\<close>, append the user and create a session record. The status is indeed not
  looked at and the user is appended, but the call raises \<^verbatim>\<open>TypeError\<close> and no session row
  is written.
\<close>

theorem join_room_ended_raises:
  "map_option r_status (map_of (rooms standup_ended) ''a1b2c3d4'') = Some ''ended'' \<and>
   snd (join_room standup_ended ''p0000001'' 130000000 ''a1b2c3d4'' ''bob'') = Inl TypeError \<and>
   map_option r_participants
     (map_of (rooms (fst (join_room standup_ended ''p0000001'' 130000000 ''a1b2c3d4'' ''bob'')))
        ''a1b2c3d4'') = Some [''bob''] \<and>
   participants_table
     (db (fst (join_room standup_ended ''p0000001'' 130000000 ''a1b2c3d4'' ''bob''))) = []"
  by (simp add: standup_ended_def standup_eq ops_defs)

subsection \<open>Failure changes nothing\<close>

text \<open>
  C10. Whenever \<^verbatim>\<open>join_room\<close>, \<^verbatim>\<open>leave_room\<close>, \<^verbatim>\<open>toggle_media\<close> or \<^verbatim>\<open>end_room\<close> returns
  \<^verbatim>\<open>False\<close>, the registry (both dictionaries and the durable store) is what it was before
  the call.
\<close>

theorem failure_leaves_state_unchanged:
  "(join_room s pid t rid u = (s', Inr False) \<longrightarrow> s' = s) \<and>
   (leave_room s t rid u = (s', Inr False) \<longrightarrow> s' = s) \<and>
   (toggle_media s rid u c m = (s', Inr False) \<longrightarrow> s' = s) \<and>
   (end_room s t rid url = (s', Inr False) \<longrightarrow> s' = s)"
  by (auto simp: join_room_def leave_room_def toggle_media_def end_room_def set_add_def
      hash_Participant_def Let_def split: option.splits if_splits)

theorem failure_leaves_state_unchanged_witness:
  "join_room standup_bob_carol ''p0000003'' 3000000 ''a1b2c3d4'' ''dave''
     = (standup_bob_carol, Inr False) \<and>
   leave_room standup_bob_carol 3000000 ''a1b2c3d4'' ''dave'' = (standup_bob_carol, Inr False) \<and>
   toggle_media standup_bob_carol ''a1b2c3d4'' ''dave'' (Some False) None
     = (standup_bob_carol, Inr False) \<and>
   end_room standup_bob_carol 3000000 ''ffffffff'' [] = (standup_bob_carol, Inr False)"
  using failure_leaves_state_unchanged [of standup_bob_carol "''p0000003''" 3000000
      "''a1b2c3d4''" "''dave''" standup_bob_carol "Some False" None "[]"]
    failure_leaves_state_unchanged [of standup_bob_carol "''p0000003''" 3000000
      "''ffffffff''" "''dave''" standup_bob_carol "Some False" None "[]"]
  by (simp add: standup_bob_carol_def standup_bob_eq standup_eq ops_defs)

subsection \<open>Leaving\<close>

lemma remove1_first_occurrence:
  "u \<in> set xs \<Longrightarrow> \<exists>before after. xs = before @ u # after \<and> u \<notin> set before \<and>
     remove1 u xs = before @ after"
proof -
  assume "u \<in> set xs"
  then obtain before after where "xs = before @ u # after" "u \<notin> set before"
    by (auto dest: split_list_first)
  then have "xs = before @ u # after \<and> u \<notin> set before \<and> remove1 u xs = before @ after"
    by (simp add: remove1_append)
  then show ?thesis by blast
qed

lemma leave_room_unknown:
  "map_of (rooms s) rid = None \<Longrightarrow> leave_room s t rid u = (s, Inr False)"
  by (simp add: leave_room_def)

lemma leave_room_absent:
  "map_of (rooms s) rid = Some room \<Longrightarrow> u \<notin> set (r_participants room) \<Longrightarrow>
     leave_room s t rid u = (s, Inr False)"
  by (simp add: leave_room_def)

lemma leave_room_present:
  "map_of (rooms s) rid = Some room \<Longrightarrow> u \<in> set (r_participants room) \<Longrightarrow>
     leave_room s t rid u =
       (s\<lparr>rooms := AList.update rid
             (room\<lparr>r_participants := remove1 u (r_participants room)\<rparr>) (rooms s),
          db := update_left_at (db s) t rid u\<rparr>, Inr True)"
  by (simp add: leave_room_def)

text \<open>
  C5. \<^verbatim>\<open>leave_room\<close> returns \<^verbatim>\<open>False\<close> when the room is unknown or the user is not in the room's
  list. Otherwise it returns \<^verbatim>\<open>True\<close>, removes the first occurrence of the user from the list
  (what stands before and after it stays, later occurrences included), leaves every other
  room and the participant sets alone, and stamps the leave time on every stored session of
  that user in that room that has none yet.
\<close>

theorem leave_room_spec:
  "(map_of (rooms s) rid = None \<longrightarrow> leave_room s t rid u = (s, Inr False)) \<and>
   (\<forall>room. map_of (rooms s) rid = Some room \<and> u \<notin> set (r_participants room) \<longrightarrow>
      leave_room s t rid u = (s, Inr False)) \<and>
   (\<forall>room. map_of (rooms s) rid = Some room \<and> u \<in> set (r_participants room) \<longrightarrow>
      snd (leave_room s t rid u) = Inr True \<and>
      (\<exists>before after. r_participants room = before @ u # after \<and> u \<notin> set before \<and>
         map_of (rooms (fst (leave_room s t rid u))) rid
           = Some (room\<lparr>r_participants := before @ after\<rparr>)) \<and>
      (\<forall>k. k \<noteq> rid \<longrightarrow>
         map_of (rooms (fst (leave_room s t rid u))) k = map_of (rooms s) k) \<and>
      participants (fst (leave_room s t rid u)) = participants s \<and>
      rooms_table (db (fst (leave_room s t rid u))) = rooms_table (db s) \<and>
      participants_table (db (fst (leave_room s t rid u)))
        = map (\<lambda>row. if pr_room_id row = rid \<and> pr_user row = u \<and> pr_left_at row = None
                      then row\<lparr>pr_left_at := Some t\<rparr> else row)
            (participants_table (db s)))"
proof -
  have present: "snd (leave_room s t rid u) = Inr True \<and>
      (\<exists>before after. r_participants room = before @ u # after \<and> u \<notin> set before \<and>
         map_of (rooms (fst (leave_room s t rid u))) rid
           = Some (room\<lparr>r_participants := before @ after\<rparr>)) \<and>
      (\<forall>k. k \<noteq> rid \<longrightarrow>
         map_of (rooms (fst (leave_room s t rid u))) k = map_of (rooms s) k) \<and>
      participants (fst (leave_room s t rid u)) = participants s \<and>
      rooms_table (db (fst (leave_room s t rid u))) = rooms_table (db s) \<and>
      participants_table (db (fst (leave_room s t rid u)))
        = map (\<lambda>row. if pr_room_id row = rid \<and> pr_user row = u \<and> pr_left_at row = None
                      then row\<lparr>pr_left_at := Some t\<rparr> else row)
            (participants_table (db s))"
    if known: "map_of (rooms s) rid = Some room" and listed: "u \<in> set (r_participants room)"
    for room
  proof -
    note eq = leave_room_present [OF known listed, of t]
    obtain before after where split:
      "r_participants room = before @ u # after" "u \<notin> set before"
      "remove1 u (r_participants room) = before @ after"
      using remove1_first_occurrence [OF listed] by blast
    have "map_of (rooms (fst (leave_room s t rid u))) rid
           = Some (room\<lparr>r_participants := before @ after\<rparr>)"
      by (simp add: eq update_conv' split(3))
    with split have "\<exists>before after. r_participants room = before @ u # after \<and>
         u \<notin> set before \<and>
         map_of (rooms (fst (leave_room s t rid u))) rid
           = Some (room\<lparr>r_participants := before @ after\<rparr>)"
      by blast
    moreover have "snd (leave_room s t rid u) = Inr True"
      by (simp add: eq)
    moreover have "\<forall>k. k \<noteq> rid \<longrightarrow>
         map_of (rooms (fst (leave_room s t rid u))) k = map_of (rooms s) k"
      by (simp add: eq update_conv')
    moreover have "participants (fst (leave_room s t rid u)) = participants s"
      by (simp add: eq)
    moreover have "rooms_table (db (fst (leave_room s t rid u))) = rooms_table (db s)"
      by (simp add: eq update_left_at_def)
    moreover have "participants_table (db (fst (leave_room s t rid u)))
        = map (\<lambda>row. if pr_room_id row = rid \<and> pr_user row = u \<and> pr_left_at row = None
                      then row\<lparr>pr_left_at := Some t\<rparr> else row)
            (participants_table (db s))"
      by (simp add: eq update_left_at_def)
    ultimately show ?thesis by blast
  qed
  show ?thesis
    using leave_room_unknown leave_room_absent present by blast
qed

theorem leave_room_spec_witness:
  "leave_room demo_server 9 ''zz'' ''bob'' = (demo_server, Inr False) \<and>
   leave_room demo_server 9 ''r1'' ''erin'' = (demo_server, Inr False) \<and>
   snd (leave_room demo_server 9 ''r1'' ''bob'') = Inr True \<and>
   map_option r_participants (map_of (rooms (fst (leave_room demo_server 9 ''r1'' ''bob''))) ''r1'')
     = Some [''carol'', ''dave'', ''bob''] \<and>
   map pr_left_at (participants_table (db (fst (leave_room demo_server 9 ''r1'' ''bob''))))
     = [Some 1, None, Some 9]"
proof -
  obtain room where room: "map_of (rooms demo_server) ''r1'' = Some room"
    "r_participants room = [''carol'', ''bob'', ''dave'', ''bob'']"
    by (simp add: demo_server_def)
  have unknown: "map_of (rooms demo_server) ''zz'' = None"
    by (simp add: demo_server_def)
  have absent: "map_of (rooms demo_server) ''r1'' = Some room \<and>
      ''erin'' \<notin> set (r_participants room)"
    using room by simp
  have listed: "map_of (rooms demo_server) ''r1'' = Some room \<and>
      ''bob'' \<in> set (r_participants room)"
    using room by simp
  note a = leave_room_spec [of demo_server "''zz''" 9 "''bob''", THEN conjunct1, THEN mp,
      OF unknown]
  note b = leave_room_spec [of demo_server "''r1''" 9 "''erin''", THEN conjunct2,
      THEN conjunct1, THEN spec, THEN mp, OF absent]
  note c = leave_room_spec [of demo_server "''r1''" 9 "''bob''", THEN conjunct2,
      THEN conjunct2, THEN spec, THEN mp, OF listed]
  from c obtain before after where split:
    "r_participants room = before @ ''bob'' # after" "''bob'' \<notin> set before"
    "map_of (rooms (fst (leave_room demo_server 9 ''r1'' ''bob''))) ''r1''
       = Some (room\<lparr>r_participants := before @ after\<rparr>)"
    by blast
  from split(1,2) room(2) have "before = [''carol''] \<and> after = [''dave'', ''bob'']"
    by (cases before; cases "tl before") (auto simp: Cons_eq_append_conv)
  with split(3) have d:
    "map_option r_participants
       (map_of (rooms (fst (leave_room demo_server 9 ''r1'' ''bob''))) ''r1'')
     = Some [''carol'', ''dave'', ''bob'']"
    by simp
  from c have "participants_table (db (fst (leave_room demo_server 9 ''r1'' ''bob'')))
        = map (\<lambda>row. if pr_room_id row = ''r1'' \<and> pr_user row = ''bob'' \<and> pr_left_at row = None
                      then row\<lparr>pr_left_at := Some 9\<rparr> else row)
            (participants_table (db demo_server))"
    by blast
  then have e: "map pr_left_at
      (participants_table (db (fst (leave_room demo_server 9 ''r1'' ''bob''))))
     = [Some 1, None, Some 9]"
    by (simp add: demo_server_def)
  from c have f: "snd (leave_room demo_server 9 ''r1'' ''bob'') = Inr True"
    by blast
  from a b f d e show ?thesis by blast
qed

subsection \<open>Minutes in double precision\<close>

text \<open>
  The value of a double as a real number, and what rounding guarantees: a number that a
  double can hold and that lies below (above) the exact quotient also lies below (above) the
  rounded one. With it, the two roundings of line 230 cannot carry the quotient across a whole
  number of minutes as long as the interval is shorter than \<open>2\<^sup>2\<^sup>7\<close> minutes.
\<close>

lemma div_lower: "0 < b \<Longrightarrow> n * b \<le> a \<Longrightarrow> n \<le> a div (b::int)"
  using zdiv_mono1 [of "n * b" a b] by simp

lemma div_upper: "0 < b \<Longrightarrow> a \<le> n * b \<Longrightarrow> a div (b::int) \<le> n"
  using zdiv_mono1 [of a "n * b" b] by simp

lemma div_upper_strict:
  assumes "0 < b" and "a < n * (b::int)"
  shows "a div b < n"
proof (rule ccontr)
  assume "\<not> a div b < n"
  then have "n \<le> a div b" by simp
  with assms(1) have "n * b \<le> (a div b) * b" by (simp add: mult_right_mono)
  moreover have "a = (a div b) * b + a mod b" by simp
  moreover have "0 \<le> a mod b" using assms(1) by simp
  ultimately show False using assms(2) by linarith
qed

lemma round_half_even_lower:
  assumes "0 < b" and "n * b \<le> a"
  shows "n \<le> round_half_even a b"
proof -
  from assms have "n \<le> a div b" by (rule div_lower)
  also have "a div b \<le> round_half_even a b"
    by (simp add: round_half_even_def Let_def)
  finally show ?thesis .
qed

lemma round_half_even_upper:
  assumes "0 < b" and "a \<le> n * b"
  shows "round_half_even a b \<le> n"
proof (cases "a mod b = 0")
  case True
  then have "round_half_even a b = a div b"
    using assms(1) by (simp add: round_half_even_def Let_def)
  moreover from assms have "a div b \<le> n" by (rule div_upper)
  ultimately show ?thesis by simp
next
  case False
  with assms have "a \<noteq> n * b" by auto
  with assms have "a < n * b" by simp
  with assms(1) have "a div b < n" by (rule div_upper_strict)
  moreover have "round_half_even a b \<le> a div b + 1"
    by (simp add: round_half_even_def Let_def)
  ultimately show ?thesis by simp
qed

lemma bitlen_real_bounds:
  assumes "0 < x"
  shows "2 powi (bitlen x - 1) \<le> real_of_int x" and "real_of_int x < 2 powi (bitlen x)"
proof -
  from assms have pos: "1 \<le> bitlen x"
    using bitlen_eq_zero_iff [of x] bitlen_nonneg [of x] by linarith
  from bitlen_bounds [OF assms] have "2 ^ nat (bitlen x - 1) \<le> x" and "x < 2 ^ nat (bitlen x)"
    by simp_all
  then have "real_of_int (2 ^ nat (bitlen x - 1)) \<le> real_of_int x"
    and "real_of_int x < real_of_int (2 ^ nat (bitlen x))"
    by linarith+
  with pos show "2 powi (bitlen x - 1) \<le> real_of_int x" and "real_of_int x < 2 powi (bitlen x)"
    by (simp_all add: power_int_nonneg_exp)
qed

lemma round_quotient_pos_scaled:
  assumes "0 < p" and "0 < q"
  shows "\<exists>a b e. round_quotient_pos p q = (round_half_even a b, e) \<and> 0 < b \<and>
           2 ^ 52 * b \<le> a \<and> a < 2 ^ 53 * b \<and>
           real_of_int a * real_of_int q * 2 powi e = real_of_int p * real_of_int b"
proof -
  define k where "k = bitlen p - bitlen q - 53"
  define a where "a = (if k < 0 then p * 2 ^ nat (- k) else p)"
  define b where "b = (if k < 0 then q else q * 2 ^ nat k)"
  have b_pos: "0 < b" using assms(2) by (simp add: b_def)
  have rel: "real_of_int a * real_of_int q * 2 powi k = real_of_int p * real_of_int b"
  proof (cases "k < 0")
    case True
    then have "(2::real) ^ nat (- k) = 2 powi (- k)" by (simp add: power_int_nonneg_exp)
    then have "(2::real) ^ nat (- k) * 2 powi k = 1"
      by (simp add: power_int_minus)
    then have "real_of_int p * real_of_int q * ((2::real) ^ nat (- k) * 2 powi k)
        = real_of_int p * real_of_int q"
      by simp
    with True show ?thesis by (simp add: a_def b_def mult_ac)
  next
    case False
    then have "(2::real) ^ nat k = 2 powi k" by (simp add: power_int_nonneg_exp)
    with False show ?thesis by (simp add: a_def b_def mult_ac)
  qed
  have "2 ^ 52 * real_of_int q * 2 powi k < 2 ^ 52 * 2 powi (bitlen q) * 2 powi k"
    using bitlen_real_bounds(2) [OF assms(2)] by simp
  also have "\<dots> = 2 powi 52 * 2 powi (bitlen q) * 2 powi k" by simp
  also have "\<dots> = 2 powi (52 + bitlen q + k)"
    by (simp add: power_int_add)
  also have "\<dots> = 2 powi (bitlen p - 1)" by (simp add: k_def)
  also have "\<dots> \<le> real_of_int p" by (rule bitlen_real_bounds(1) [OF assms(1)])
  finally have "2 ^ 52 * real_of_int q * 2 powi k < real_of_int p" .
  with b_pos have "(2 ^ 52 * real_of_int q * 2 powi k) * real_of_int b
      < real_of_int p * real_of_int b"
    by simp
  with rel have "(2 ^ 52 * real_of_int b) * (real_of_int q * 2 powi k)
      < real_of_int a * (real_of_int q * 2 powi k)"
    by (simp add: mult_ac)
  moreover have "0 < real_of_int q * (2::real) powi k" using assms(2) by simp
  ultimately have "2 ^ 52 * real_of_int b < real_of_int a"
    by (simp only: mult_less_cancel_right_pos)
  then have low: "2 ^ 52 * b < a"
    by (metis of_int_less_iff of_int_mult of_int_numeral of_int_power)
  have a_pos: "0 < a" using assms(1) by (simp add: a_def)
  have "real_of_int a * (2 powi (bitlen q - 1) * 2 powi k)
      \<le> real_of_int a * (real_of_int q * 2 powi k)"
    using bitlen_real_bounds(1) [OF assms(2)] a_pos by (simp add: mult_left_mono)
  also have "\<dots> = real_of_int p * real_of_int b" using rel by (simp add: mult_ac)
  also have "\<dots> < 2 powi (bitlen p) * real_of_int b"
    using bitlen_real_bounds(2) [OF assms(1)] b_pos by simp
  also have "\<dots> = (2 ^ 54 * real_of_int b) * 2 powi (bitlen p - 54)"
    using power_int_add [of "2::real" 54 "bitlen p - 54"] by (simp add: mult_ac)
  finally have "real_of_int a * (2 powi (bitlen q - 1) * 2 powi k)
      < (2 ^ 54 * real_of_int b) * 2 powi (bitlen p - 54)" .
  moreover have "(2::real) powi (bitlen q - 1) * 2 powi k = 2 powi (bitlen p - 54)"
    using power_int_add [of "2::real" "bitlen q - 1" k] by (simp add: k_def)
  moreover have "0 < (2::real) powi (bitlen p - 54)" by simp
  ultimately have "real_of_int a < 2 ^ 54 * real_of_int b"
    by (simp only: mult_less_cancel_right_pos)
  then have up: "a < 2 ^ 54 * b"
    by (metis of_int_less_iff of_int_mult of_int_numeral of_int_power)
  show ?thesis
  proof (cases "a < 2 ^ 53 * b")
    case True
    have "round_quotient_pos p q
        = (if a < 2 ^ 53 * b then (round_half_even a b, k)
           else (round_half_even a (2 * b), k + 1))"
      unfolding round_quotient_pos_def Let_def k_def [symmetric]
      unfolding a_def [symmetric] b_def [symmetric] ..
    with True have "round_quotient_pos p q = (round_half_even a b, k)"
      by (simp only: if_True)
    with b_pos low rel True show ?thesis
      by (intro exI [of _ a] exI [of _ b] exI [of _ k]) simp
  next
    case False
    have "round_quotient_pos p q
        = (if a < 2 ^ 53 * b then (round_half_even a b, k)
           else (round_half_even a (2 * b), k + 1))"
      unfolding round_quotient_pos_def Let_def k_def [symmetric]
      unfolding a_def [symmetric] b_def [symmetric] ..
    with False have eq: "round_quotient_pos p q = (round_half_even a (2 * b), k + 1)"
      by (simp only: if_False)
    have "(2::real) powi (k + 1) = 2 powi k * 2" by (simp add: power_int_add)
    with rel have "real_of_int a * real_of_int q * 2 powi (k + 1)
        = real_of_int p * real_of_int (2 * b)"
      by simp
    moreover from False have "2 ^ 52 * (2 * b) \<le> a" by simp
    moreover from up have "a < 2 ^ 53 * (2 * b)" by simp
    ultimately show ?thesis
      using eq b_pos by (intro exI [of _ a] exI [of _ "2 * b"] exI [of _ "k + 1"]) simp
  qed
qed

lemma round_quotient_pos_lower:
  assumes "0 < p" and "0 < q" and "0 < m" and "m \<le> 2 ^ 53"
    and le: "real_of_int m * 2 powi a \<le> real_of_int p / real_of_int q"
  shows "real_of_int m * 2 powi a \<le> val (round_quotient_pos p q)"
proof -
  from round_quotient_pos_scaled [OF assms(1,2)] obtain A B E where
    eq: "round_quotient_pos p q = (round_half_even A B, E)" and B: "0 < B"
    and low: "2 ^ 52 * B \<le> A"
    and rel: "real_of_int A * real_of_int q * 2 powi E = real_of_int p * real_of_int B"
    by blast
  define c where "c = real_of_int q * 2 powi E"
  have c: "0 < c" using assms(2) by (simp add: c_def)
  have rel': "real_of_int A * c = real_of_int p * real_of_int B"
    using rel by (simp add: c_def mult_ac)
  from le assms(2) have le': "real_of_int m * 2 powi a * real_of_int q \<le> real_of_int p"
    by (simp add: pos_le_divide_eq)
  have valeq: "val (round_quotient_pos p q) = real_of_int (round_half_even A B) * 2 powi E"
    by (simp add: eq val_def)
  show ?thesis
  proof (cases "E \<le> a")
    case True
    define N where "N = m * 2 ^ nat (a - E)"
    from True have pw: "(2::real) ^ nat (a - E) = 2 powi (a - E)"
      by (simp add: power_int_nonneg_exp)
    have split: "(2::real) powi a = 2 powi (a - E) * 2 powi E"
      using power_int_add [of "2::real" "a - E" E] by simp
    have N: "real_of_int N = real_of_int m * 2 powi (a - E)"
      by (simp add: N_def pw)
    have "(real_of_int N * real_of_int B) * c
        = (real_of_int m * 2 powi a * real_of_int q) * real_of_int B"
      by (simp add: N c_def split mult_ac)
    also have "\<dots> \<le> real_of_int p * real_of_int B"
      using le' B by (simp add: mult_right_mono)
    also have "\<dots> = real_of_int A * c" by (simp add: rel')
    finally have "real_of_int N * real_of_int B \<le> real_of_int A"
      using c by (simp only: mult_le_cancel_right_pos)
    then have "N * B \<le> A"
      by (metis of_int_le_iff of_int_mult)
    with B have "N \<le> round_half_even A B" by (rule round_half_even_lower)
    then have "real_of_int N * 2 powi E \<le> real_of_int (round_half_even A B) * 2 powi E"
      by (simp add: mult_right_mono)
    moreover have "real_of_int N * 2 powi E = real_of_int m * 2 powi a"
      by (simp add: N split mult_ac)
    ultimately show ?thesis by (simp add: valeq)
  next
    case False
    then have "a \<le> E - 1" by simp
    then have "(2::real) powi a \<le> 2 powi (E - 1)"
      by (simp add: power_int_increasing)
    moreover have "real_of_int m \<le> 2 ^ 53"
      using assms(4) by (metis of_int_le_iff of_int_numeral of_int_power)
    ultimately have "real_of_int m * 2 powi a \<le> 2 ^ 53 * 2 powi (E - 1)"
      using assms(3) by (intro mult_mono) simp_all
    also have "\<dots> = 2 ^ 52 * 2 powi E"
      using power_int_add [of "2::real" "E - 1" 1] by simp
    also have "\<dots> \<le> real_of_int (round_half_even A B) * 2 powi E"
    proof -
      from B low have "2 ^ 52 \<le> round_half_even A B" by (rule round_half_even_lower)
      then have "(2::real) ^ 52 \<le> real_of_int (round_half_even A B)"
        by (metis of_int_le_iff of_int_numeral of_int_power)
      then show ?thesis by (simp add: mult_right_mono)
    qed
    finally show ?thesis by (simp add: valeq)
  qed
qed

lemma round_quotient_pos_upper:
  assumes "0 < p" and "0 < q" and "0 < m" and "m \<le> 2 ^ 53"
    and le: "real_of_int p / real_of_int q \<le> real_of_int m * 2 powi a"
  shows "val (round_quotient_pos p q) \<le> real_of_int m * 2 powi a"
proof -
  from round_quotient_pos_scaled [OF assms(1,2)] obtain A B E where
    eq: "round_quotient_pos p q = (round_half_even A B, E)" and B: "0 < B"
    and low: "2 ^ 52 * B \<le> A"
    and rel: "real_of_int A * real_of_int q * 2 powi E = real_of_int p * real_of_int B"
    by blast
  define c where "c = real_of_int q * 2 powi E"
  have c: "0 < c" using assms(2) by (simp add: c_def)
  have rel': "real_of_int A * c = real_of_int p * real_of_int B"
    using rel by (simp add: c_def mult_ac)
  from le assms(2) have le': "real_of_int p \<le> real_of_int m * 2 powi a * real_of_int q"
    by (simp add: pos_divide_le_eq)
  have valeq: "val (round_quotient_pos p q) = real_of_int (round_half_even A B) * 2 powi E"
    by (simp add: eq val_def)
  show ?thesis
  proof (cases "E \<le> a")
    case True
    define N where "N = m * 2 ^ nat (a - E)"
    from True have pw: "(2::real) ^ nat (a - E) = 2 powi (a - E)"
      by (simp add: power_int_nonneg_exp)
    have split: "(2::real) powi a = 2 powi (a - E) * 2 powi E"
      using power_int_add [of "2::real" "a - E" E] by simp
    have N: "real_of_int N = real_of_int m * 2 powi (a - E)"
      by (simp add: N_def pw)
    have "real_of_int A * c = real_of_int p * real_of_int B" by (rule rel')
    also have "\<dots> \<le> (real_of_int m * 2 powi a * real_of_int q) * real_of_int B"
      using le' B by (simp add: mult_right_mono)
    also have "\<dots> = (real_of_int N * real_of_int B) * c"
      by (simp add: N c_def split mult_ac)
    finally have "real_of_int A \<le> real_of_int N * real_of_int B"
      using c by (simp only: mult_le_cancel_right_pos)
    then have "A \<le> N * B"
      by (metis of_int_le_iff of_int_mult)
    with B have "round_half_even A B \<le> N" by (rule round_half_even_upper)
    then have "real_of_int (round_half_even A B) * 2 powi E \<le> real_of_int N * 2 powi E"
      by (simp add: mult_right_mono)
    moreover have "real_of_int N * 2 powi E = real_of_int m * 2 powi a"
      by (simp add: N split mult_ac)
    ultimately show ?thesis by (simp add: valeq)
  next
    case False
    then have "a \<le> E - 1" by simp
    then have "(2::real) powi a \<le> 2 powi (E - 1)"
      by (simp add: power_int_increasing)
    moreover have "real_of_int m \<le> 2 ^ 53"
      using assms(4) by (metis of_int_le_iff of_int_numeral of_int_power)
    ultimately have "real_of_int m * 2 powi a \<le> 2 ^ 53 * 2 powi (E - 1)"
      using assms(3) by (intro mult_mono) simp_all
    also have "\<dots> = 2 ^ 52 * 2 powi E"
      using power_int_add [of "2::real" "E - 1" 1] by simp
    finally have top: "real_of_int m * 2 powi a \<le> 2 ^ 52 * 2 powi E" .
    have "real_of_int A * c = real_of_int p * real_of_int B" by (rule rel')
    also have "\<dots> \<le> (real_of_int m * 2 powi a * real_of_int q) * real_of_int B"
      using le' B by (simp add: mult_right_mono)
    also have "\<dots> \<le> (2 ^ 52 * 2 powi E * real_of_int q) * real_of_int B"
      using top B assms(2) by (simp add: mult_right_mono)
    also have "\<dots> = (2 ^ 52 * real_of_int B) * c"
      by (simp add: c_def mult_ac)
    finally have "real_of_int A \<le> 2 ^ 52 * real_of_int B"
      using c by (simp only: mult_le_cancel_right_pos)
    then have "A \<le> 2 ^ 52 * B"
      by (metis of_int_le_iff of_int_mult of_int_numeral of_int_power)
    with low have A: "A = 2 ^ 52 * B" by simp
    with B have "round_half_even A B \<le> 2 ^ 52"
      by (intro round_half_even_upper) simp_all
    then have "real_of_int (round_half_even A B) \<le> 2 ^ 52"
      by (metis of_int_le_iff of_int_numeral of_int_power)
    then have 1: "val (round_quotient_pos p q) \<le> 2 ^ 52 * 2 powi E"
      by (simp add: valeq mult_right_mono)
    have "(2 ^ 52 * 2 powi E) * (real_of_int q * real_of_int B)
        = real_of_int A * c"
      by (simp add: A c_def mult_ac)
    also have "\<dots> = real_of_int p * real_of_int B" by (rule rel')
    also have "\<dots> \<le> (real_of_int m * 2 powi a * real_of_int q) * real_of_int B"
      using le' B by (simp add: mult_right_mono)
    also have "\<dots> = (real_of_int m * 2 powi a) * (real_of_int q * real_of_int B)"
      by (simp add: mult_ac)
    finally have "(2 ^ 52 * 2 powi E) * (real_of_int q * real_of_int B)
        \<le> (real_of_int m * 2 powi a) * (real_of_int q * real_of_int B)" .
    moreover have "0 < real_of_int q * real_of_int B" using assms(2) B by simp
    ultimately have "2 ^ 52 * 2 powi E \<le> real_of_int m * 2 powi a"
      by (simp only: mult_le_cancel_right_pos)
    with 1 show ?thesis by simp
  qed
qed

lemma round_quotient_pos_mantissa:
  assumes "0 < p" and "0 < q"
  shows "0 < fst (round_quotient_pos p q)"
proof -
  from round_quotient_pos_scaled [OF assms] obtain A B E where
    eq: "round_quotient_pos p q = (round_half_even A B, E)" and B: "0 < B"
    and low: "2 ^ 52 * B \<le> A"
    by blast
  from B low have "2 ^ 52 \<le> round_half_even A B" by (rule round_half_even_lower)
  with eq show ?thesis by simp
qed

lemma round_quotient_of_pos: "0 < p \<Longrightarrow> round_quotient p q = round_quotient_pos p q"
  by (simp add: round_quotient_def)

lemma round_quotient_of_neg:
  "0 < p \<Longrightarrow> round_quotient (- p) q
     = (- fst (round_quotient_pos p q), snd (round_quotient_pos p q))"
  by (simp add: round_quotient_def split: prod.splits)

lemma double_div_int_pos:
  assumes "0 < m" and "0 < n"
  shows "\<exists>p q. 0 < p \<and> 0 < q \<and> double_div_int (m, e) n = round_quotient_pos p q \<and>
           real_of_int p / real_of_int q = val (m, e) / real_of_int n"
proof (cases "e < 0")
  case True
  then have pw: "(2::real) ^ nat (- e) = 2 powi (- e)" by (simp add: power_int_nonneg_exp)
  let ?q = "n * 2 ^ nat (- e)"
  have "0 < ?q" using assms(2) by simp
  moreover have "double_div_int (m, e) n = round_quotient_pos m ?q"
    using True round_quotient_of_pos [OF assms(1)] by (simp add: double_div_int_def)
  moreover have "real_of_int m / real_of_int ?q = val (m, e) / real_of_int n"
    by (simp add: val_def pw power_int_minus field_simps)
  ultimately show ?thesis using assms(1) by blast
next
  case False
  then have pw: "(2::real) ^ nat e = 2 powi e" by (simp add: power_int_nonneg_exp)
  let ?p = "m * 2 ^ nat e"
  have "0 < ?p" using assms(1) by simp
  moreover have "double_div_int (m, e) n = round_quotient_pos ?p n"
    using False round_quotient_of_pos [OF \<open>0 < ?p\<close>] by (simp add: double_div_int_def)
  moreover have "real_of_int ?p / real_of_int n = val (m, e) / real_of_int n"
    by (simp add: val_def pw)
  ultimately show ?thesis using assms(2) by blast
qed

lemma int_of_double_floor:
  assumes "0 < m"
  shows "int_of_double (m, e) = \<lfloor>val (m, e)\<rfloor>"
proof (cases "e < 0")
  case True
  then have pw: "(2::real) ^ nat (- e) = 2 powi (- e)" by (simp add: power_int_nonneg_exp)
  have "val (m, e) = real_of_int m / real_of_int (2 ^ nat (- e))"
    by (simp add: val_def pw power_int_minus field_simps)
  then have "\<lfloor>val (m, e)\<rfloor> = m div 2 ^ nat (- e)"
    by (simp only: floor_divide_of_int_eq)
  with True assms show ?thesis by (simp add: int_of_double_def)
next
  case False
  then have pw: "(2::real) ^ nat e = 2 powi e" by (simp add: power_int_nonneg_exp)
  have "val (m, e) = real_of_int (m * 2 ^ nat e)"
    by (simp add: val_def pw)
  then have "\<lfloor>val (m, e)\<rfloor> = m * 2 ^ nat e"
    by (simp only: floor_of_int)
  with False show ?thesis by (simp add: int_of_double_def)
qed

lemma val_nonneg: "0 \<le> m \<Longrightarrow> 0 \<le> val (m, e)"
  by (simp add: val_def)

lemma minute_bounds:
  fixes d :: int
  assumes "0 < d" and "d < 2 ^ 27 * 60000000"
  defines "q0 \<equiv> d div 60000000"
  shows "0 \<le> q0" and "q0 * 60000000 \<le> d" and "d < (q0 + 1) * 60000000"
    and "q0 + 1 \<le> 2 ^ 27"
proof -
  show "0 \<le> q0"
    using assms(1) by (simp add: q0_def pos_imp_zdiv_nonneg_iff)
  have mod_low: "0 \<le> d mod 60000000" and mod_up: "d mod 60000000 < 60000000"
    by simp_all
  show "q0 * 60000000 \<le> d"
    unfolding q0_def using div_mult_mod_eq [of d 60000000] mod_low by linarith
  have "(q0 + 1) * 60000000 = q0 * 60000000 + 60000000" by (simp add: algebra_simps)
  then show "d < (q0 + 1) * 60000000"
    unfolding q0_def using div_mult_mod_eq [of d 60000000] mod_up by linarith
  have "d div 60000000 < 2 ^ 27"
    by (rule div_upper_strict) (use assms(2) in simp_all)
  then show "q0 + 1 \<le> 2 ^ 27" by (simp add: q0_def)
qed

lemma total_seconds_lower:
  assumes "0 < d" and "0 \<le> q0" and "q0 * 60000000 \<le> d" and "q0 + 1 \<le> 2 ^ 27"
  shows "real_of_int (60 * q0) \<le> val (round_quotient_pos d 1000000)"
proof (cases "q0 = 0")
  case True
  have "0 < fst (round_quotient_pos d 1000000)"
    using round_quotient_pos_mantissa [of d 1000000] assms(1) by simp
  with True show ?thesis by (simp add: val_def)
next
  case False
  with assms(2) have pos: "0 < 60 * q0" by simp
  have small: "60 * q0 \<le> 2 ^ 53" using assms(4) by simp
  have "(60 * q0) * 1000000 \<le> d" using assms(3) by simp
  then have "real_of_int ((60 * q0) * 1000000) \<le> real_of_int d"
    by (simp only: of_int_le_iff)
  then have "real_of_int (60 * q0) * 2 powi 0 \<le> real_of_int d / real_of_int 1000000"
    by (simp add: pos_le_divide_eq)
  from round_quotient_pos_lower [OF assms(1) _ pos small this]
  show ?thesis by simp
qed

lemma total_seconds_upper:
  assumes "0 < d" and "0 \<le> q0" and "d < (q0 + 1) * 60000000" and "q0 + 1 \<le> 2 ^ 27"
  shows "val (round_quotient_pos d 1000000)
    \<le> real_of_int (60 * (q0 + 1) * 2 ^ 20 - 1) * 2 powi (- 20)"
proof -
  have pos: "0 < 60 * (q0 + 1) * 2 ^ 20 - 1" using assms(2) by simp
  have small: "60 * (q0 + 1) * 2 ^ 20 - 1 \<le> 2 ^ 53" using assms(4) by simp
  have "d * 2 ^ 20 \<le> (60 * (q0 + 1) * 2 ^ 20 - 1) * 1000000"
    using assms(3) by simp
  then have "real_of_int (d * 2 ^ 20) \<le> real_of_int ((60 * (q0 + 1) * 2 ^ 20 - 1) * 1000000)"
    by (simp only: of_int_le_iff)
  then have "real_of_int d * 1048576 \<le> real_of_int (60 * (q0 + 1) * 2 ^ 20 - 1) * 1000000"
    by simp
  then have "real_of_int d / 1000000 \<le> real_of_int (60 * (q0 + 1) * 2 ^ 20 - 1) / 1048576"
    by (simp add: pos_le_divide_eq pos_divide_le_eq)
  moreover have "(2::real) powi (- 20) = 1 / 1048576" by simp
  ultimately have "real_of_int d / real_of_int 1000000
      \<le> real_of_int (60 * (q0 + 1) * 2 ^ 20 - 1) * 2 powi (- 20)"
    by simp
  from round_quotient_pos_upper [OF assms(1) _ pos small this]
  show ?thesis by simp
qed

lemma quotient_lower:
  assumes "0 < p" and "0 < q" and "0 \<le> q0" and "q0 + 1 \<le> 2 ^ 27"
    and "real_of_int (60 * q0) \<le> real_of_int p / real_of_int q * 60"
  shows "real_of_int q0 \<le> val (round_quotient_pos p q)"
proof (cases "q0 = 0")
  case True
  have "0 < fst (round_quotient_pos p q)"
    by (rule round_quotient_pos_mantissa [OF assms(1,2)])
  with True show ?thesis by (simp add: val_def)
next
  case False
  with assms(3) have pos: "0 < q0" by simp
  have small: "q0 \<le> 2 ^ 53" using assms(4) by simp
  define x where "x = real_of_int p / real_of_int q"
  from assms(5) have "60 * real_of_int q0 \<le> x * 60" by (simp add: x_def)
  then have "real_of_int q0 \<le> x" by linarith
  then have "real_of_int q0 * 2 powi 0 \<le> real_of_int p / real_of_int q"
    by (simp add: x_def)
  from round_quotient_pos_lower [OF assms(1,2) pos small this]
  show ?thesis by simp
qed

lemma quotient_upper:
  assumes "0 < p" and "0 < q" and "0 \<le> q0" and "q0 + 1 \<le> 2 ^ 27"
    and "real_of_int p / real_of_int q * 60
      \<le> real_of_int (60 * (q0 + 1) * 2 ^ 20 - 1) * 2 powi (- 20)"
  shows "val (round_quotient_pos p q) \<le> real_of_int ((q0 + 1) * 2 ^ 26 - 1) * 2 powi (- 26)"
proof -
  have pos: "0 < (q0 + 1) * 2 ^ 26 - 1" using assms(3) by simp
  have small: "(q0 + 1) * 2 ^ 26 - 1 \<le> 2 ^ 53" using assms(4) by simp
  have a: "(2::real) powi (- 20) = 1 / 1048576" and b: "(2::real) powi (- 26) = 1 / 67108864"
    by simp_all
  define x where "x = real_of_int p / real_of_int q"
  from assms(5) have "x * 60 \<le> (60 * (real_of_int q0 + 1) * 1048576 - 1) / 1048576"
    by (simp add: a x_def)
  then have "x * 60 \<le> 60 * (real_of_int q0 + 1) - 1 / 1048576"
    by (simp add: diff_divide_distrib)
  then have "x \<le> (real_of_int q0 + 1) - 1 / 67108864" by (simp add: field_simps)
  then have "x \<le> ((real_of_int q0 + 1) * 67108864 - 1) / 67108864"
    by (simp add: diff_divide_distrib)
  then have "real_of_int p / real_of_int q
      \<le> real_of_int ((q0 + 1) * 2 ^ 26 - 1) * 2 powi (- 26)"
    by (simp add: b x_def)
  from round_quotient_pos_upper [OF assms(1,2) pos small this]
  show ?thesis by simp
qed

lemma minutes_of_pos:
  assumes "0 < d" and "d < 2 ^ 27 * 60000000"
  shows "minutes_of d = d div 60000000"
proof -
  define q0 where "q0 = d div 60000000"
  note b = minute_bounds [OF assms, folded q0_def]
  let ?ts = "round_quotient_pos d 1000000"
  have ts_eq: "total_seconds d = ?ts"
    by (simp add: total_seconds_def round_quotient_of_pos [OF assms(1)])
  obtain M1 E1 where ts: "?ts = (M1, E1)" by (cases ?ts)
  have M1: "0 < M1"
    using round_quotient_pos_mantissa [of d 1000000] assms(1) ts by simp
  note ts_low = total_seconds_lower [OF assms(1) b(1) b(2) b(4)]
  note ts_up = total_seconds_upper [OF assms(1) b(1) b(3) b(4)]
  from double_div_int_pos [OF M1, of 60 E1] obtain p q where
    p: "0 < p" and q: "0 < q"
    and div_eq: "double_div_int (M1, E1) 60 = round_quotient_pos p q"
    and quot: "real_of_int p / real_of_int q = val (M1, E1) / real_of_int 60"
    by auto
  from quot have quot': "real_of_int p / real_of_int q * 60 = val ?ts"
    by (simp add: ts)
  let ?r = "round_quotient_pos p q"
  obtain M2 E2 where r: "?r = (M2, E2)" by (cases ?r)
  have M2: "0 < M2"
    using round_quotient_pos_mantissa [OF p q] r by simp
  have r_low: "real_of_int q0 \<le> val ?r"
    by (rule quotient_lower [OF p q b(1) b(4)]) (simp only: quot' ts_low)
  have r_up: "val ?r \<le> real_of_int ((q0 + 1) * 2 ^ 26 - 1) * 2 powi (- 26)"
    by (rule quotient_upper [OF p q b(1) b(4)]) (simp only: quot' ts_up)
  have "(2::real) powi (- 26) = 1 / 67108864" by simp
  with r_up have "val ?r \<le> ((real_of_int q0 + 1) * 67108864 - 1) / 67108864"
    by simp
  then have "val ?r < real_of_int q0 + 1"
    by (simp add: field_simps)
  with r_low have "\<lfloor>val ?r\<rfloor> = q0" by (simp add: floor_unique)
  moreover have "minutes_of d = int_of_double ?r"
    by (simp add: minutes_of_def ts_eq ts div_eq)
  moreover have "int_of_double ?r = \<lfloor>val ?r\<rfloor>"
    using int_of_double_floor [OF M2, of E2] by (simp add: r)
  ultimately show ?thesis by (simp add: q0_def)
qed

lemma double_div_int_neg:
  assumes "0 < m" and "0 < n"
  shows "double_div_int (- m, e) n
    = (- fst (double_div_int (m, e) n), snd (double_div_int (m, e) n))"
    and "0 < fst (double_div_int (m, e) n)"
proof -
  show "double_div_int (- m, e) n
    = (- fst (double_div_int (m, e) n), snd (double_div_int (m, e) n))"
  proof (cases "e < 0")
    case True
    with assms(1) show ?thesis
      by (simp add: double_div_int_def round_quotient_of_neg round_quotient_of_pos)
  next
    case False
    from assms(1) have pos: "0 < m * 2 ^ nat e" by simp
    have "- m * 2 ^ nat e = - (m * 2 ^ nat e)" by simp
    with False pos show ?thesis
      by (simp add: double_div_int_def round_quotient_of_neg round_quotient_of_pos)
  qed
  from double_div_int_pos [OF assms, of e] obtain p q where
    "0 < p" "0 < q" "double_div_int (m, e) n = round_quotient_pos p q"
    by blast
  then show "0 < fst (double_div_int (m, e) n)"
    by (simp add: round_quotient_pos_mantissa)
qed

lemma int_of_double_neg:
  "0 < m \<Longrightarrow> int_of_double (- m, e) = - int_of_double (m, e)"
  by (simp add: int_of_double_def)

lemma int_of_double_nonneg:
  "0 < m \<Longrightarrow> 0 \<le> int_of_double (m, e)"
  by (simp add: int_of_double_def pos_imp_zdiv_nonneg_iff)

lemma minutes_of_zero: "minutes_of 0 = 0"
  by (simp add: minutes_of_def total_seconds_def round_quotient_def double_div_int_def
      int_of_double_def)

lemma minutes_of_minus:
  assumes "0 < d"
  shows "minutes_of (- d) = - minutes_of d" and "0 \<le> minutes_of d"
proof -
  let ?ts = "round_quotient_pos d 1000000"
  obtain M1 E1 where ts: "?ts = (M1, E1)" by (cases ?ts)
  have M1: "0 < M1"
    using round_quotient_pos_mantissa [of d 1000000] assms ts by simp
  have pos: "total_seconds d = (M1, E1)"
    by (simp add: total_seconds_def round_quotient_of_pos [OF assms] ts)
  have neg: "total_seconds (- d) = (- M1, E1)"
    by (simp add: total_seconds_def round_quotient_of_neg [OF assms] ts)
  obtain M2 E2 where r: "double_div_int (M1, E1) 60 = (M2, E2)"
    by (cases "double_div_int (M1, E1) 60")
  from double_div_int_neg [OF M1, of 60 E1] r
  have r': "double_div_int (- M1, E1) 60 = (- M2, E2)" and M2: "0 < M2"
    by simp_all
  show "minutes_of (- d) = - minutes_of d"
    by (simp add: minutes_of_def pos neg r r' int_of_double_neg [OF M2])
  show "0 \<le> minutes_of d"
    by (simp add: minutes_of_def pos r int_of_double_nonneg [OF M2])
qed

lemma minutes_of_exact:
  assumes "\<bar>us\<bar> < 2 ^ 27 * 60000000"
  shows "minutes_of us = (if 0 \<le> us then us div 60000000 else - ((- us) div 60000000))"
proof -
  consider "us = 0" | "0 < us" | "us < 0" by linarith
  then show ?thesis
  proof cases
    case 1
    then show ?thesis by (simp add: minutes_of_zero)
  next
    case 2
    with assms have "us < 2 ^ 27 * 60000000" by simp
    with 2 show ?thesis by (simp add: minutes_of_pos)
  next
    case 3
    then have pos: "0 < - us" by simp
    with assms have "- us < 2 ^ 27 * 60000000" by simp
    from minutes_of_pos [OF pos this] minutes_of_minus(1) [OF pos] 3
    show ?thesis by simp
  qed
qed

lemma minutes_of_sign:
  "(0 \<le> us \<longrightarrow> 0 \<le> minutes_of us) \<and> (us \<le> 0 \<longrightarrow> minutes_of us \<le> 0)"
proof -
  consider "us = 0" | "0 < us" | "us < 0" by linarith
  then show ?thesis
  proof cases
    case 1
    then show ?thesis by (simp add: minutes_of_zero)
  next
    case 2
    with minutes_of_minus(2) [of us] show ?thesis by simp
  next
    case 3
    then have pos: "0 < - us" by simp
    from minutes_of_minus [OF pos] 3 show ?thesis by simp
  qed
qed

subsection \<open>Room snapshots and durations\<close>

lemma registry_ok_reachable: "registry_ok (run init_server cs)"
  by (rule registry_ok_run [OF registry_ok_init])

lemma reachable_room_ok:
  "map_of (rooms (run init_server cs)) rid = Some room \<Longrightarrow> room_ok rid room"
  using registry_ok_reachable [of cs] by (simp add: registry_ok_def del: map_of_eq_Some_iff)

lemma get_room_unknown: "map_of (rooms s) rid = None \<Longrightarrow> get_room s rid = None"
  by (simp add: get_room_def)

lemma get_room_known:
  "map_of (rooms s) rid = Some room \<Longrightarrow> get_room s rid = Some (room_info room)"
  by (simp add: get_room_def)

lemma end_room_known:
  "map_of (rooms s) rid = Some room \<Longrightarrow>
     end_room s t rid url =
       (s\<lparr>rooms := AList.update rid
             (room\<lparr>r_status := ''ended'', r_ended_at := Some t, r_recording_url := url\<rparr>)
             (rooms s),
          db := update_room_ended (db s) t url rid\<rparr>, Inr True)"
  by (simp add: end_room_def)

lemma get_room_after_end_room:
  "map_of (rooms s) rid = Some room \<Longrightarrow>
     get_room (fst (end_room s t rid url)) rid
       = Some (room_info (room\<lparr>r_status := ''ended'', r_ended_at := Some t,
                                 r_recording_url := url\<rparr>))"
  by (simp add: end_room_def get_room_def update_conv')

lemma room_info_duration_None:
  "r_ended_at room = None \<Longrightarrow> ri_duration_minutes (room_info room) = None"
  by (simp add: room_info_def)

lemma room_info_duration_Some:
  "r_ended_at room = Some e \<Longrightarrow>
     ri_duration_minutes (room_info room) = Some (duration_minutes (r_created_at room) e)"
  by (simp add: room_info_def)

lemma duration_minutes_exact:
  "\<bar>e - c\<bar> < 2 ^ 27 * 60000000 \<Longrightarrow>
     duration_minutes c e
       = (if c \<le> e then (e - c) div 60000000 else - ((c - e) div 60000000))"
  using minutes_of_exact [of "e - c"] by (simp add: duration_minutes_def)

lemma duration_minutes_sign:
  "(c \<le> e \<longrightarrow> 0 \<le> duration_minutes c e) \<and> (e \<le> c \<longrightarrow> duration_minutes c e \<le> 0)"
  using minutes_of_sign [of "e - c"] by (simp add: duration_minutes_def)

lemma duration_minutes_abs:
  assumes "\<bar>e - c\<bar> < 2 ^ 27 * 60000000"
  shows "\<bar>duration_minutes c e\<bar> = \<bar>e - c\<bar> div 60000000"
proof (cases "c \<le> e")
  case True
  then have "0 \<le> (e - c) div 60000000" by (simp add: pos_imp_zdiv_nonneg_iff)
  with True show ?thesis by (simp add: duration_minutes_exact [OF assms])
next
  case False
  then have "0 \<le> (c - e) div 60000000" by (simp add: pos_imp_zdiv_nonneg_iff)
  with False show ?thesis by (simp add: duration_minutes_exact [OF assms])
qed

text \<open>
  Beyond that bound the two roundings do reach the next minute: for an interval of
  18934214399999999 microseconds, one microsecond short of 315570240 minutes, line 230 gives
  315570240.
\<close>

lemma duration_minutes_rounds_up:
  "duration_minutes 0 18934214399999999 = 315570240 \<and>
   18934214399999999 div 60000000 = (315570239 :: int)"
  by code_simp

text \<open>
  C7, as stated, fails when the clock reading taken by \<^verbatim>\<open>end_room\<close> is earlier than the one
  taken by \<^verbatim>\<open>create_room\<close>: for a room ended ninety seconds before its creation
  \<^verbatim>\<open>get_room\<close> reports \<open>-1\<close>, which is negative and is not the floor \<open>-2\<close>.
\<close>

theorem rewound_clock_counterexample:
  "map_option ri_duration_minutes (get_room rewound ''a1b2c3d4'') = Some (Some (- 1)) \<and>
   map_option ri_status (get_room rewound ''a1b2c3d4'') = Some ''ended'' \<and>
   (0 - 90000000) div 60000000 = (- 2 :: int)"
proof -
  have "duration_minutes 90000000 0 = - 1"
    by (simp add: duration_minutes_exact)
  then show ?thesis
    by (simp add: rewound_def get_room_def room_info_def ops_defs)
qed

text \<open>
  C7, amended. \<^verbatim>\<open>get_room\<close> returns nothing for an unknown room. For a room with an end
  time it reports the minutes that line 230 computes in double precision: a number that is
  not negative when the end is not earlier than the creation (and not positive the other way
  round), and that, for an interval shorter than \<open>2\<^sup>2\<^sup>7\<close> minutes (some 255 years), is the
  elapsed seconds over sixty truncated towards zero, hence their floor when the end is not
  earlier than the creation. After \<^verbatim>\<open>end_room\<close> on a known room the snapshot is ended and
  carries the end time and such a duration. A room without end time has no duration, and
  along every run that is every room whose status is not \<^verbatim>\<open>ended\<close>.
\<close>

theorem get_room_duration:
  "(map_of (rooms s) rid = None \<longrightarrow> get_room s rid = None) \<and>
   (\<forall>room. map_of (rooms s) rid = Some room \<longrightarrow>
      (\<exists>info. get_room s rid = Some info \<and>
         (r_ended_at room = None \<longrightarrow> ri_duration_minutes info = None) \<and>
         (\<forall>e. r_ended_at room = Some e \<longrightarrow>
            (\<exists>d. ri_duration_minutes info = Some d \<and>
               (r_created_at room \<le> e \<longrightarrow> 0 \<le> d) \<and>
               (e \<le> r_created_at room \<longrightarrow> d \<le> 0) \<and>
               (\<bar>e - r_created_at room\<bar> < 2 ^ 27 * 60000000 \<longrightarrow>
                  \<bar>d\<bar> = \<bar>e - r_created_at room\<bar> div 60000000 \<and>
                  (r_created_at room \<le> e \<longrightarrow> d = (e - r_created_at room) div 60000000)))))) \<and>
   (\<forall>room. map_of (rooms s) rid = Some room \<longrightarrow>
      snd (end_room s t rid url) = Inr True \<and>
      (\<exists>info. get_room (fst (end_room s t rid url)) rid = Some info \<and>
         ri_status info = ''ended'' \<and> ri_ended_at info = Some t \<and>
         (\<exists>d. ri_duration_minutes info = Some d \<and>
            (r_created_at room \<le> t \<longrightarrow> 0 \<le> d) \<and>
            (r_created_at room \<le> t \<and> t - r_created_at room < 2 ^ 27 * 60000000 \<longrightarrow>
               d = (t - r_created_at room) div 60000000)))) \<and>
   (\<forall>room. map_of (rooms (run init_server cs)) rid = Some room \<and> r_status room \<noteq> ''ended'' \<longrightarrow>
      map_option ri_duration_minutes (get_room (run init_server cs) rid) = Some None)"
proof (intro conjI allI impI)
  assume "map_of (rooms s) rid = None"
  then show "get_room s rid = None" by (rule get_room_unknown)
next
  fix room :: Room
  assume known: "map_of (rooms s) rid = Some room"
  show "\<exists>info. get_room s rid = Some info \<and>
         (r_ended_at room = None \<longrightarrow> ri_duration_minutes info = None) \<and>
         (\<forall>e. r_ended_at room = Some e \<longrightarrow>
            (\<exists>d. ri_duration_minutes info = Some d \<and>
               (r_created_at room \<le> e \<longrightarrow> 0 \<le> d) \<and>
               (e \<le> r_created_at room \<longrightarrow> d \<le> 0) \<and>
               (\<bar>e - r_created_at room\<bar> < 2 ^ 27 * 60000000 \<longrightarrow>
                  \<bar>d\<bar> = \<bar>e - r_created_at room\<bar> div 60000000 \<and>
                  (r_created_at room \<le> e \<longrightarrow> d = (e - r_created_at room) div 60000000))))"
  proof (intro exI [of _ "room_info room"] conjI allI impI)
    show "get_room s rid = Some (room_info room)"
      by (rule get_room_known [OF known])
  next
    assume "r_ended_at room = None"
    then show "ri_duration_minutes (room_info room) = None"
      by (rule room_info_duration_None)
  next
    fix e
    assume e: "r_ended_at room = Some e"
    show "\<exists>d. ri_duration_minutes (room_info room) = Some d \<and>
               (r_created_at room \<le> e \<longrightarrow> 0 \<le> d) \<and>
               (e \<le> r_created_at room \<longrightarrow> d \<le> 0) \<and>
               (\<bar>e - r_created_at room\<bar> < 2 ^ 27 * 60000000 \<longrightarrow>
                  \<bar>d\<bar> = \<bar>e - r_created_at room\<bar> div 60000000 \<and>
                  (r_created_at room \<le> e \<longrightarrow> d = (e - r_created_at room) div 60000000))"
    proof (intro exI [of _ "duration_minutes (r_created_at room) e"] conjI impI)
      show "ri_duration_minutes (room_info room) = Some (duration_minutes (r_created_at room) e)"
        by (rule room_info_duration_Some [OF e])
    next
      assume "r_created_at room \<le> e"
      then show "0 \<le> duration_minutes (r_created_at room) e"
        using duration_minutes_sign [of "r_created_at room" e] by blast
    next
      assume "e \<le> r_created_at room"
      then show "duration_minutes (r_created_at room) e \<le> 0"
        using duration_minutes_sign [of "r_created_at room" e] by blast
    next
      assume "\<bar>e - r_created_at room\<bar> < 2 ^ 27 * 60000000"
      then show "\<bar>duration_minutes (r_created_at room) e\<bar> = \<bar>e - r_created_at room\<bar> div 60000000"
        by (rule duration_minutes_abs)
    next
      assume "\<bar>e - r_created_at room\<bar> < 2 ^ 27 * 60000000" and "r_created_at room \<le> e"
      then show "duration_minutes (r_created_at room) e = (e - r_created_at room) div 60000000"
        by (simp add: duration_minutes_exact)
    qed
  qed
next
  fix room :: Room
  assume known: "map_of (rooms s) rid = Some room"
  then show "snd (end_room s t rid url) = Inr True"
    by (simp add: end_room_def)
next
  fix room :: Room
  assume known: "map_of (rooms s) rid = Some room"
  let ?room' = "room\<lparr>r_status := ''ended'', r_ended_at := Some t, r_recording_url := url\<rparr>"
  show "\<exists>info. get_room (fst (end_room s t rid url)) rid = Some info \<and>
         ri_status info = ''ended'' \<and> ri_ended_at info = Some t \<and>
         (\<exists>d. ri_duration_minutes info = Some d \<and>
            (r_created_at room \<le> t \<longrightarrow> 0 \<le> d) \<and>
            (r_created_at room \<le> t \<and> t - r_created_at room < 2 ^ 27 * 60000000 \<longrightarrow>
               d = (t - r_created_at room) div 60000000))"
  proof (intro exI [of _ "room_info ?room'"] exI [of _ "duration_minutes (r_created_at room) t"]
      conjI impI)
    show "get_room (fst (end_room s t rid url)) rid = Some (room_info ?room')"
      by (rule get_room_after_end_room [OF known])
  next
    show "ri_duration_minutes (room_info ?room') = Some (duration_minutes (r_created_at room) t)"
      by (simp add: room_info_def)
  next
    assume "r_created_at room \<le> t"
    then show "0 \<le> duration_minutes (r_created_at room) t"
      using duration_minutes_sign [of "r_created_at room" t] by blast
  next
    assume "r_created_at room \<le> t \<and> t - r_created_at room < 2 ^ 27 * 60000000"
    then show "duration_minutes (r_created_at room) t = (t - r_created_at room) div 60000000"
      by (simp add: duration_minutes_exact)
  qed (simp_all add: room_info_def)
next
  fix room :: Room
  assume h: "map_of (rooms (run init_server cs)) rid = Some room \<and> r_status room \<noteq> ''ended''"
  then have "room_ok rid room" by (blast intro: reachable_room_ok)
  with h have "r_ended_at room = None" by (simp add: room_ok_def)
  with h get_room_known [of "run init_server cs" rid room]
  show "map_option ri_duration_minutes (get_room (run init_server cs) rid) = Some None"
    by (simp add: room_info_duration_None)
qed

theorem get_room_duration_witness:
  "get_room standup ''ffffffff'' = None \<and>
   map_option ri_duration_minutes (get_room standup ''a1b2c3d4'') = Some None \<and>
   snd (end_room standup 150000000 ''a1b2c3d4'' ''https://rec/1'') = Inr True \<and>
   map_option ri_status (get_room standup_closed ''a1b2c3d4'') = Some ''ended'' \<and>
   map_option ri_duration_minutes (get_room standup_closed ''a1b2c3d4'') = Some (Some 2) \<and>
   map_option ri_duration_minutes
     (get_room (run init_server [CreateRoom ''a1b2c3d4'' 0 ''Standup'' ''alice'' 2]) ''a1b2c3d4'')
     = Some None"
proof -
  let ?cs = "[CreateRoom ''a1b2c3d4'' 0 ''Standup'' ''alice'' 2]"
  obtain room where room: "map_of (rooms standup) ''a1b2c3d4'' = Some room"
    "r_created_at room = 0" "r_ended_at room = None" "r_status room = ''active''"
    by (simp add: standup_eq)
  have unknown: "map_of (rooms standup) ''ffffffff'' = None"
    by (simp add: standup_eq)
  have run_eq: "run init_server ?cs = standup"
    by (simp add: standup_def)
  have active: "map_of (rooms (run init_server ?cs)) ''a1b2c3d4'' = Some room \<and>
      r_status room \<noteq> ''ended''"
    using room unfolding run_eq by simp
  note a = get_room_duration [of standup "''ffffffff''", THEN conjunct1, THEN mp, OF unknown]
  note b = get_room_duration [of standup "''a1b2c3d4''", THEN conjunct2, THEN conjunct1,
      THEN spec, THEN mp, OF room(1)]
  note c = get_room_duration [of standup "''a1b2c3d4''" 150000000 "''https://rec/1''",
      THEN conjunct2, THEN conjunct2, THEN conjunct1, THEN spec, THEN mp, OF room(1)]
  note d = get_room_duration [of _ "''a1b2c3d4''" _ _ ?cs, THEN conjunct2, THEN conjunct2,
      THEN conjunct2, THEN spec, THEN mp, OF active]
  from b room(3) have b': "map_option ri_duration_minutes (get_room standup ''a1b2c3d4'') = Some None"
    by auto
  from c have c1: "snd (end_room standup 150000000 ''a1b2c3d4'' ''https://rec/1'') = Inr True"
    by blast
  from c obtain info m where info:
    "get_room (fst (end_room standup 150000000 ''a1b2c3d4'' ''https://rec/1'')) ''a1b2c3d4''
       = Some info"
    "ri_status info = ''ended''" "ri_duration_minutes info = Some m"
    "r_created_at room \<le> 150000000 \<and> 150000000 - r_created_at room < 2 ^ 27 * 60000000 \<longrightarrow>
       m = (150000000 - r_created_at room) div 60000000"
    by blast
  from info(4) room(2) have "m = 2" by simp
  with info(1,2,3) have c2:
    "map_option ri_status (get_room standup_closed ''a1b2c3d4'') = Some ''ended''"
    "map_option ri_duration_minutes (get_room standup_closed ''a1b2c3d4'') = Some (Some 2)"
    by (simp_all add: standup_closed_def)
  from a b' c1 c2 d show ?thesis by blast
qed

subsection \<open>Capacity and end time along every run\<close>

text \<open>
  C2, as stated, fails for a room created with a negative capacity: it is active and its
  empty list is longer than \<open>max_size\<close> allows. Nothing checks \<open>max_size\<close>.
\<close>

theorem negative_capacity_counterexample:
  "map_option r_status (map_of (rooms negative_capacity) ''a1b2c3d4'') = Some ''active'' \<and>
   map_option (\<lambda>room. int (length (r_participants room)) \<le> r_max_size room)
     (map_of (rooms negative_capacity) ''a1b2c3d4'') = Some False"
  by (simp add: negative_capacity_def ops_defs)

text \<open>
  C2, amended. In every state reached by a run of \<^verbatim>\<open>create_room\<close>, \<^verbatim>\<open>join_room\<close>,
  \<^verbatim>\<open>leave_room\<close>, \<^verbatim>\<open>toggle_media\<close> and \<^verbatim>\<open>end_room\<close> calls, raising ones included, an active
  room lists at most \<open>max 0 max_size\<close> participants, and a room has an end time exactly when
  its status is \<^verbatim>\<open>ended\<close>.
\<close>

theorem registry_invariant:
  "map_of (rooms (run init_server cs)) rid = Some room \<Longrightarrow>
     (r_status room = ''active'' \<longrightarrow>
        int (length (r_participants room)) \<le> max 0 (r_max_size room)) \<and>
     (r_ended_at room \<noteq> None \<longleftrightarrow> r_status room = ''ended'')"
proof -
  assume "map_of (rooms (run init_server cs)) rid = Some room"
  then have "room_ok rid room" by (rule reachable_room_ok)
  then show ?thesis by (simp add: room_ok_def)
qed

theorem registry_invariant_witness:
  "map_of (rooms (run init_server full_run)) ''a1b2c3d4'' = Some standup_full_room \<and>
   r_status standup_full_room = ''active'' \<and>
   int (length (r_participants standup_full_room)) \<le> max 0 (r_max_size standup_full_room) \<and>
   r_ended_at standup_full_room = None"
proof -
  have known: "map_of (rooms (run init_server full_run)) ''a1b2c3d4'' = Some standup_full_room"
    by (simp add: full_run_def standup_full_room_def ops_defs)
  have active: "r_status standup_full_room = ''active''"
    by (simp add: standup_full_room_def)
  from registry_invariant [OF known] active known show ?thesis by auto
qed

subsection \<open>Join events\<close>


subsection \<open>Toggling media\<close>





subsection \<open>User history\<close>

lemma those_map_Some:
  "(\<And>x. x \<in> set xs \<Longrightarrow> f x = Some (g x)) \<Longrightarrow> those (map f xs) = Some (map g xs)"
  by (induction xs) simp_all

lemma registry_room_lookup:
  assumes "registry_ok s" and "room \<in> snd ` set (rooms s)"
  shows "map_of (rooms s) (r_id room) = Some room"
proof -
  from assms(2) obtain k where k: "(k, room) \<in> set (rooms s)" by auto
  from assms(1) have "distinct (map fst (rooms s))" by (simp add: registry_ok_def)
  with k have look: "map_of (rooms s) k = Some room" by simp
  with assms(1) have "room_ok k room" by (simp add: registry_ok_def del: map_of_eq_Some_iff)
  then have "r_id room = k" by (simp add: room_ok_def)
  with look show ?thesis by simp
qed

lemma get_user_history_registry:
  assumes "registry_ok s"
  shows "get_user_history s u n
    = Inr (slice_to n (sorted_reverse ri_created_at (map room_info (history_rooms s u))))"
proof -
  have "get_room s (r_id room) = Some (room_info room)" if "room \<in> set (history_rooms s u)"
    for room
  proof -
    from that have "room \<in> snd ` set (rooms s)" by (auto simp: history_rooms_def)
    from registry_room_lookup [OF assms this] show ?thesis by (rule get_room_known)
  qed
  then have "those (map (\<lambda>room. get_room s (r_id room)) (history_rooms s u))
      = Some (map room_info (history_rooms s u))"
    by (rule those_map_Some)
  then show ?thesis by (simp add: get_user_history_def)
qed

lemma set_sorted_reverse: "set (sorted_reverse key xs) = set xs"
  by (simp add: sorted_reverse_def)

lemma sorted_reverse_descending:
  "sorted_wrt (\<lambda>a b. key b \<le> key a) (sorted_reverse key xs)"
proof -
  have "sorted (map key (sort_key key (rev xs)))" by (rule sorted_sort_key)
  then have "sorted_wrt (\<lambda>a b. key a \<le> key b) (sort_key key (rev xs))"
    by (simp only: sorted_map)
  then show ?thesis by (simp only: sorted_reverse_def sorted_wrt_rev)
qed

lemma distinct_map_sorted_reverse:
  "distinct (map f (sorted_reverse key xs)) = distinct (map f xs)"
  by (simp add: sorted_reverse_def distinct_map)

lemma history_rooms_ids:
  assumes "registry_ok s"
  shows "distinct (map r_id (history_rooms s u))"
proof -
  have "r_id (snd e) = fst e" if "e \<in> set (rooms s)" for e
  proof -
    from assms have "distinct (map fst (rooms s))" by (simp add: registry_ok_def)
    with that have "map_of (rooms s) (fst e) = Some (snd e)" by simp
    with assms have "room_ok (fst e) (snd e)"
      by (simp add: registry_ok_def del: map_of_eq_Some_iff)
    then show ?thesis by (simp add: room_ok_def)
  qed
  then have "map (\<lambda>e. r_id (snd e)) (rooms s) = map fst (rooms s)"
    by (intro map_cong refl)
  then have "map r_id (map snd (rooms s)) = map fst (rooms s)"
    by (simp add: comp_def)
  moreover from assms have "distinct (map fst (rooms s))" by (simp add: registry_ok_def)
  ultimately have "distinct (map r_id (map snd (rooms s)))" by (simp only:)
  then show ?thesis unfolding history_rooms_def by (rule distinct_map_filter)
qed

lemma history_rooms_set:
  assumes "registry_ok s"
  shows "set (history_rooms s u)
    = {room. \<exists>k. map_of (rooms s) k = Some room \<and> r_status room = ''ended'' \<and>
         u \<in> set (r_participants room)}"
proof -
  from assms have "distinct (map fst (rooms s))" by (simp add: registry_ok_def)
  then have "snd ` set (rooms s) = {room. \<exists>k. map_of (rooms s) k = Some room}"
    by (simp add: ran_distinct [symmetric] ran_def del: map_of_eq_Some_iff)
  then show ?thesis by (auto simp: history_rooms_def simp del: map_of_eq_Some_iff)
qed

lemma slice_to_nonneg: "0 \<le> n \<Longrightarrow> slice_to n xs = take (nat n) xs"
  by (simp add: slice_to_def)

lemma set_slice_to: "set (slice_to n xs) \<subseteq> set xs"
  by (simp add: slice_to_def set_take_subset)

lemma history_entry:
  assumes "registry_ok s" and "get_user_history s u n = Inr h" and "info \<in> set h"
  shows "\<exists>room. info = room_info room \<and> map_of (rooms s) (ri_id info) = Some room \<and>
           u \<in> set (r_participants room) \<and> r_status room = ''ended''"
proof -
  from get_user_history_registry [OF assms(1), of u n] assms(2)
  have "h = slice_to n (sorted_reverse ri_created_at (map room_info (history_rooms s u)))"
    by simp
  with assms(3) have "info \<in> set (slice_to n (sorted_reverse ri_created_at
      (map room_info (history_rooms s u))))"
    by simp
  then have "info \<in> set (sorted_reverse ri_created_at (map room_info (history_rooms s u)))"
    using set_slice_to by (rule rev_subsetD)
  then have "info \<in> room_info ` set (history_rooms s u)"
    by (simp only: set_sorted_reverse set_map)
  then obtain room where room: "info = room_info room" "room \<in> set (history_rooms s u)"
    by (rule imageE)
  from room(2) have member: "room \<in> snd ` set (rooms s)"
    and listed: "u \<in> set (r_participants room)"
    and ended: "r_status room = ''ended''"
    by (auto simp: history_rooms_def)
  have "ri_id info = r_id room"
    by (simp add: room(1) room_info_def)
  with registry_room_lookup [OF assms(1) member]
  have "map_of (rooms s) (ri_id info) = Some room"
    by simp
  with room(1) listed ended show ?thesis by blast
qed

lemma history_ordered:
  assumes ok: "registry_ok s"
  shows "set (sorted_reverse ri_created_at (map room_info (history_rooms s u)))
      = {room_info room | room.
           \<exists>k. map_of (rooms s) k = Some room \<and>
               r_status room = ''ended'' \<and> u \<in> set (r_participants room)}"
    and "distinct (map ri_id (sorted_reverse ri_created_at (map room_info (history_rooms s u))))"
proof -
  show "set (sorted_reverse ri_created_at (map room_info (history_rooms s u)))
      = {room_info room | room.
           \<exists>k. map_of (rooms s) k = Some room \<and>
               r_status room = ''ended'' \<and> u \<in> set (r_participants room)}"
    unfolding set_sorted_reverse set_map history_rooms_set [OF ok] by (simp only: image_Collect)
  have "map ri_id (map room_info (history_rooms s u)) = map r_id (history_rooms s u)"
    by (simp add: room_info_def)
  then show "distinct (map ri_id (sorted_reverse ri_created_at (map room_info (history_rooms s u))))"
    by (simp only: distinct_map_sorted_reverse history_rooms_ids [OF ok])
qed

lemma history_server_rooms:
  "rooms history_server =
     [(''r0000001'',
       \<lparr>r_id = ''r0000001'', r_name = ''Monday'', r_host = ''alice'', r_participants = [''bob''],
        r_max_size = 5, r_status = ''ended'', r_created_at = 0,
        r_ended_at = Some 100000000, r_recording_url = []\<rparr>),
      (''r0000002'',
       \<lparr>r_id = ''r0000002'', r_name = ''Tuesday'', r_host = ''alice'', r_participants = [''bob''],
        r_max_size = 5, r_status = ''ended'', r_created_at = 200000000,
        r_ended_at = Some 300000000, r_recording_url = []\<rparr>),
      (''r0000003'',
       \<lparr>r_id = ''r0000003'', r_name = ''Wednesday'', r_host = ''alice'',
        r_participants = [''bob''], r_max_size = 5, r_status = ''active'',
        r_created_at = 400000000, r_ended_at = None, r_recording_url = []\<rparr>)]"
  by (simp add: history_server_def history_run_def ops_defs)

lemma absent_step:
  assumes "\<forall>room. map_of (rooms s) rid = Some room \<longrightarrow> u \<notin> set (r_participants room)"
    and "\<not> rejoins rid u c"
  shows "\<forall>room. map_of (rooms (step s c)) rid = Some room \<longrightarrow> u \<notin> set (r_participants room)"
proof (cases c)
  case (CreateRoom room_id now name host max_size)
  with assms(1) show ?thesis
    by (auto simp: create_room_def insert_room_def Let_def update_conv' split: if_splits)
next
  case (JoinRoom participant_id now room_id user)
  with assms show ?thesis
    by (auto simp: join_room_def set_add_def hash_Participant_def Let_def update_conv'
        split: option.splits if_splits)
next
  case (LeaveRoom now room_id user)
  with assms(1) show ?thesis
    by (auto simp: leave_room_def update_conv' split: option.splits if_splits
        dest: notin_set_remove1)
next
  case (ToggleMedia room_id user camera mic)
  with assms(1) show ?thesis
    by (auto simp: toggle_media_def split: option.splits)
next
  case (EndRoom now room_id recording_url)
  with assms(1) show ?thesis
    by (auto simp: end_room_def update_conv' split: option.splits if_splits)
qed

lemma absent_run:
  assumes "\<forall>room. map_of (rooms s) rid = Some room \<longrightarrow> u \<notin> set (r_participants room)"
    and "\<not> list_ex (rejoins rid u) ds"
  shows "\<forall>room. map_of (rooms (run s ds)) rid = Some room \<longrightarrow> u \<notin> set (r_participants room)"
  using assms
proof (induction ds arbitrary: s)
  case Nil
  then show ?case by simp
next
  case (Cons c ds)
  from Cons.prems(2) have c: "\<not> rejoins rid u c" and ds: "\<not> list_ex (rejoins rid u) ds"
    by simp_all
  from absent_step [OF Cons.prems(1) c] have
    "\<forall>room. map_of (rooms (step s c)) rid = Some room \<longrightarrow> u \<notin> set (r_participants room)" .
  from Cons.IH [OF this ds] show ?case by simp
qed

lemma left_room_absent:
  fixes room :: Room
  assumes known: "map_of (rooms (run init_server cs)) rid = Some room"
    and once: "count_list (r_participants room) u = 1"
    and quiet: "\<not> list_ex (rejoins rid u) ds"
  shows "snd (leave_room (run init_server cs) t rid u) = Inr True"
    and "\<exists>h. get_user_history (run (fst (leave_room (run init_server cs) t rid u)) ds) u n'
            = Inr h \<and>
           rid \<notin> ri_id ` set h"
proof -
  let ?s = "run init_server cs"
  let ?s1 = "fst (leave_room ?s t rid u)"
  let ?s2 = "run ?s1 ds"
  let ?left = "room\<lparr>r_participants := remove1 u (r_participants room)\<rparr>"
  have listed: "u \<in> set (r_participants room)"
  proof (rule ccontr)
    assume "u \<notin> set (r_participants room)"
    then have "count_list (r_participants room) u = 0" by (rule count_list_0_iff [THEN iffD2])
    with once show False by simp
  qed
  from once have "count_list (remove1 u (r_participants room)) u = 0" by simp
  then have gone: "u \<notin> set (remove1 u (r_participants room))"
    by (rule count_list_0_iff [THEN iffD1])
  note left = leave_room_present [OF known listed, of t]
  from left show "snd (leave_room ?s t rid u) = Inr True" by simp
  from left have known1: "map_of (rooms ?s1) rid = Some ?left"
    by (simp add: update_conv')
  with gone have "\<forall>r. map_of (rooms ?s1) rid = Some r \<longrightarrow> u \<notin> set (r_participants r)"
    by simp
  from absent_run [OF this quiet]
  have absent: "\<forall>r. map_of (rooms ?s2) rid = Some r \<longrightarrow> u \<notin> set (r_participants r)" .
  have ok: "registry_ok ?s2"
    by (intro registry_ok_run registry_ok_leave_room registry_ok_reachable)
  let ?h = "slice_to n' (sorted_reverse ri_created_at (map room_info (history_rooms ?s2 u)))"
  have eq: "get_user_history ?s2 u n' = Inr ?h"
    by (rule get_user_history_registry [OF ok])
  have "rid \<notin> ri_id ` set ?h"
  proof
    assume "rid \<in> ri_id ` set ?h"
    then obtain info where info: "info \<in> set ?h" "ri_id info = rid" by (auto simp only: image_iff)
    from history_entry [OF ok eq info(1)] obtain r where
      r: "map_of (rooms ?s2) (ri_id info) = Some r" "u \<in> set (r_participants r)"
      by blast
    from r(1) info(2) absent have "u \<notin> set (r_participants r)" by simp
    with r(2) show False by simp
  qed
  with eq show "\<exists>h. get_user_history ?s2 u n' = Inr h \<and> rid \<notin> ri_id ` set h"
    by blast
qed

lemma rejoined_server_rooms:
  "rooms rejoined_server =
     [(''r0000001'',
       \<lparr>r_id = ''r0000001'', r_name = ''Monday'', r_host = ''alice'', r_participants = [''bob''],
        r_max_size = 5, r_status = ''ended'', r_created_at = 0,
        r_ended_at = Some 100000000, r_recording_url = []\<rparr>),
      (''r0000002'',
       \<lparr>r_id = ''r0000002'', r_name = ''Tuesday'', r_host = ''alice'', r_participants = [''bob''],
        r_max_size = 5, r_status = ''ended'', r_created_at = 200000000,
        r_ended_at = Some 300000000, r_recording_url = []\<rparr>),
      (''r0000003'',
       \<lparr>r_id = ''r0000003'', r_name = ''Wednesday'', r_host = ''alice'',
        r_participants = [''bob''], r_max_size = 5, r_status = ''ended'',
        r_created_at = 400000000, r_ended_at = Some 500000000, r_recording_url = []\<rparr>)]"
proof -
  have "map_of (participants history_server) ''r0000003'' = Some []"
    by (simp add: history_server_def history_run_def ops_defs)
  then show ?thesis
    by (simp add: rejoined_server_def leave_room_def end_room_def join_room_def set_add_def
        hash_Participant_def history_server_rooms)
qed

text \<open>
  C3, as stated, fails in two ways. For a negative bound the slice \<^verbatim>\<open>[:n]\<close> drops the last
  \<open>-n\<close> entries instead of keeping at most \<open>n\<close>: with two rooms in bob's history and
  \<open>n = -1\<close> the result has one entry. And a user who left a room before it was ended is in
  its list again after a later \<^verbatim>\<open>join_room\<close>, which appends before it raises: bob leaves the
  third room, calls \<^verbatim>\<open>join_room\<close>, the room is ended, and it is in his history.
\<close>

theorem get_user_history_counterexample:
  "map_sum id (map ri_id) (get_user_history history_server ''bob'' (- 1)) = Inr [''r0000002''] \<and>
   map_sum id (\<lambda>h. int (length h) \<le> - 1) (get_user_history history_server ''bob'' (- 1))
     = Inr False \<and>
   snd (leave_room history_server 402000000 ''r0000003'' ''bob'') = Inr True \<and>
   snd (join_room (fst (leave_room history_server 402000000 ''r0000003'' ''bob''))
          ''p0000004'' 403000000 ''r0000003'' ''bob'') = Inl TypeError \<and>
   map_sum id (map ri_id) (get_user_history rejoined_server ''bob'' 10)
     = Inr [''r0000003'', ''r0000002'', ''r0000001'']"
proof -
  have set3: "map_of (participants history_server) ''r0000003'' = Some []"
    by (simp add: history_server_def history_run_def ops_defs)
  have 1: "map_sum id (map ri_id) (get_user_history history_server ''bob'' (- 1))
      = Inr [''r0000002'']"
    "map_sum id (\<lambda>h. int (length h) \<le> - 1) (get_user_history history_server ''bob'' (- 1))
      = Inr False"
    by (simp_all add: get_user_history_def history_rooms_def get_room_def room_info_def
        sorted_reverse_def slice_to_def history_server_rooms)
  have 2: "snd (leave_room history_server 402000000 ''r0000003'' ''bob'') = Inr True"
    by (simp add: leave_room_def history_server_rooms)
  have 3: "snd (join_room (fst (leave_room history_server 402000000 ''r0000003'' ''bob''))
          ''p0000004'' 403000000 ''r0000003'' ''bob'') = Inl TypeError"
    using set3
    by (simp add: leave_room_def join_room_def set_add_def hash_Participant_def
        history_server_rooms)
  have 4: "map_sum id (map ri_id) (get_user_history rejoined_server ''bob'' 10)
      = Inr [''r0000003'', ''r0000002'', ''r0000001'']"
    by (simp add: get_user_history_def history_rooms_def get_room_def room_info_def
        sorted_reverse_def slice_to_def rejoined_server_rooms)
  from 1 2 3 4 show ?thesis by simp
qed

text \<open>
  C3, amended. After any run, for a bound \<open>n\<close> that is not negative,
  \<^verbatim>\<open>get_user_history(u, n)\<close> returns the first \<open>n\<close> entries of a list that holds exactly the
  snapshots of the rooms whose status is \<^verbatim>\<open>ended\<close> and whose list contains \<open>u\<close>, each room
  once, ordered by creation time, latest first. And whatever the bound: when \<open>u\<close> stands
  once in a room's list, \<^verbatim>\<open>leave_room\<close> returns \<^verbatim>\<open>True\<close>, and after any further calls, none
  of them a \<^verbatim>\<open>join_room\<close> of \<open>u\<close> on that room, the room is absent from the history of \<open>u\<close>.
\<close>

theorem get_user_history_spec:
  "(0 \<le> n \<longrightarrow>
      (\<exists>ordered.
         get_user_history (run init_server cs) u n = Inr (take (nat n) ordered) \<and>
         int (length (take (nat n) ordered)) \<le> n \<and>
         sorted_wrt (\<lambda>a b. ri_created_at b \<le> ri_created_at a) ordered \<and>
         distinct (map ri_id ordered) \<and>
         set ordered
           = {room_info room | room.
                \<exists>k. map_of (rooms (run init_server cs)) k = Some room \<and>
                    r_status room = ''ended'' \<and> u \<in> set (r_participants room)})) \<and>
   (\<forall>room. map_of (rooms (run init_server cs)) rid = Some room \<and>
        count_list (r_participants room) u = 1 \<and> \<not> list_ex (rejoins rid u) ds \<longrightarrow>
      snd (leave_room (run init_server cs) t rid u) = Inr True \<and>
      (\<exists>h. get_user_history (run (fst (leave_room (run init_server cs) t rid u)) ds) u n'
            = Inr h \<and>
           rid \<notin> ri_id ` set h))"
proof (intro conjI allI impI)
  let ?s = "run init_server cs"
  let ?ordered = "sorted_reverse ri_created_at (map room_info (history_rooms ?s u))"
  assume n: "0 \<le> n"
  have ok: "registry_ok ?s" by (rule registry_ok_reachable)
  show "\<exists>ordered.
         get_user_history ?s u n = Inr (take (nat n) ordered) \<and>
         int (length (take (nat n) ordered)) \<le> n \<and>
         sorted_wrt (\<lambda>a b. ri_created_at b \<le> ri_created_at a) ordered \<and>
         distinct (map ri_id ordered) \<and>
         set ordered
           = {room_info room | room.
                \<exists>k. map_of (rooms ?s) k = Some room \<and>
                    r_status room = ''ended'' \<and> u \<in> set (r_participants room)}"
  proof (intro exI [of _ ?ordered] conjI)
    show "get_user_history ?s u n = Inr (take (nat n) ?ordered)"
      by (simp only: get_user_history_registry [OF ok] slice_to_nonneg [OF n])
    show "int (length (take (nat n) ?ordered)) \<le> n"
      using n by simp
    show "sorted_wrt (\<lambda>a b. ri_created_at b \<le> ri_created_at a) ?ordered"
      by (rule sorted_reverse_descending)
    show "distinct (map ri_id ?ordered)"
      by (rule history_ordered(2) [OF ok])
    show "set ?ordered
      = {room_info room | room.
           \<exists>k. map_of (rooms ?s) k = Some room \<and>
               r_status room = ''ended'' \<and> u \<in> set (r_participants room)}"
      by (rule history_ordered(1) [OF ok])
  qed
next
  fix room :: Room
  assume "map_of (rooms (run init_server cs)) rid = Some room \<and>
    count_list (r_participants room) u = 1 \<and> \<not> list_ex (rejoins rid u) ds"
  then show "snd (leave_room (run init_server cs) t rid u) = Inr True"
    using left_room_absent(1) by blast
next
  fix room :: Room
  assume "map_of (rooms (run init_server cs)) rid = Some room \<and>
    count_list (r_participants room) u = 1 \<and> \<not> list_ex (rejoins rid u) ds"
  then show "\<exists>h. get_user_history (run (fst (leave_room (run init_server cs) t rid u)) ds) u n'
            = Inr h \<and>
           rid \<notin> ri_id ` set h"
    using left_room_absent(2) by blast
qed

lemma left_server_rooms:
  "rooms left_server =
     [(''r0000001'',
       \<lparr>r_id = ''r0000001'', r_name = ''Monday'', r_host = ''alice'', r_participants = [''bob''],
        r_max_size = 5, r_status = ''ended'', r_created_at = 0,
        r_ended_at = Some 100000000, r_recording_url = []\<rparr>),
      (''r0000002'',
       \<lparr>r_id = ''r0000002'', r_name = ''Tuesday'', r_host = ''alice'', r_participants = [''bob''],
        r_max_size = 5, r_status = ''ended'', r_created_at = 200000000,
        r_ended_at = Some 300000000, r_recording_url = []\<rparr>),
      (''r0000003'',
       \<lparr>r_id = ''r0000003'', r_name = ''Wednesday'', r_host = ''alice'',
        r_participants = [], r_max_size = 5, r_status = ''ended'',
        r_created_at = 400000000, r_ended_at = Some 500000000, r_recording_url = []\<rparr>)]"
proof -
  have "map_of (participants history_server) ''r0000003'' = Some []"
    by (simp add: history_server_def history_run_def ops_defs)
  then show ?thesis
    by (simp add: left_server_def leave_room_def end_room_def toggle_media_def
        history_server_rooms)
qed

theorem get_user_history_spec_witness:
  "(0::int) \<le> 1 \<and>
   map_sum id (map ri_id) (get_user_history history_server ''bob'' 1) = Inr [''r0000002''] \<and>
   map_sum id (map ri_id) (get_user_history history_server ''bob'' 10)
     = Inr [''r0000002'', ''r0000001''] \<and>
   snd (leave_room history_server 402000000 ''r0000003'' ''bob'') = Inr True \<and>
   map_sum id (map ri_id) (get_user_history left_server ''bob'' 10)
     = Inr [''r0000002'', ''r0000001'']"
proof -
  let ?ds = "[ToggleMedia ''r0000003'' ''bob'' (Some False) None,
      EndRoom 500000000 ''r0000003'' []]"
  have bound: "(0::int) \<le> 1" by simp
  obtain room where room: "map_of (rooms history_server) ''r0000003'' = Some room"
    "r_participants room = [''bob'']"
    by (simp add: history_server_rooms)
  then have once: "map_of (rooms (run init_server history_run)) ''r0000003'' = Some room \<and>
      count_list (r_participants room) ''bob'' = 1 \<and>
      \<not> list_ex (rejoins ''r0000003'' ''bob'') ?ds"
    by (simp add: history_server_def)
  note a = get_user_history_spec [of 1 history_run "''bob''", THEN conjunct1, THEN mp, OF bound]
  note b = get_user_history_spec [of _ history_run "''bob''" "''r0000003''" ?ds 402000000
      10, THEN conjunct2, THEN spec, THEN mp, OF once]
  from a obtain ordered where
    "get_user_history history_server ''bob'' 1 = Inr (take (nat 1) ordered)"
    "int (length (take (nat 1) ordered)) \<le> 1"
    unfolding history_server_def by blast
  have 1: "map_sum id (map ri_id) (get_user_history history_server ''bob'' 1)
      = Inr [''r0000002'']"
    by (simp add: get_user_history_def history_rooms_def get_room_def room_info_def
        sorted_reverse_def slice_to_def history_server_rooms)
  have 2: "map_sum id (map ri_id) (get_user_history history_server ''bob'' 10)
      = Inr [''r0000002'', ''r0000001'']"
    by (simp add: get_user_history_def history_rooms_def get_room_def room_info_def
        sorted_reverse_def slice_to_def history_server_rooms)
  from b have 3: "snd (leave_room history_server 402000000 ''r0000003'' ''bob'') = Inr True"
    unfolding history_server_def by blast
  from b obtain h where h: "get_user_history left_server ''bob'' 10 = Inr h"
    "''r0000003'' \<notin> ri_id ` set h"
    unfolding history_server_def left_server_def by blast
  have 4: "map_sum id (map ri_id) (get_user_history left_server ''bob'' 10)
      = Inr [''r0000002'', ''r0000001'']"
    by (simp add: get_user_history_def history_rooms_def get_room_def room_info_def
        sorted_reverse_def slice_to_def left_server_rooms)
  from bound 1 2 3 4 h show ?thesis by blast
qed

end
